theory Spec2Isabelle
  imports Complex_Main "HOL-Library.Char_ord"
begin

section \<open>ExprLib: data model\<close>

text \<open>
  A shallow embedding of the expression library (\<^verbatim>\<open>exprlib.h\<close> and the library source).
  The process-wide variables of the C code are the fields of one record that every
  operation takes and returns. Allocation (\<^verbatim>\<open>malloc\<close>, \<^verbatim>\<open>realloc\<close>, \<^verbatim>\<open>strdup\<close>) is taken
  to succeed, so the \<^verbatim>\<open>EXPRLIB_ERROR_MALLOC_FAILED\<close> branches and the releasing of nodes
  (\<^verbatim>\<open>exprlib_free\<close>) have no counterpart; output written with \<^verbatim>\<open>printf\<close> is not modelled.
  A failed \<^verbatim>\<open>assert\<close> ends the process: functions that can reach one return an option,
  and \<open>None\<close> is that end.
\<close>

datatype ExprLibError =
    EXPRLIB_SUCCESS
  | EXPRLIB_ERROR_SYNTAX
  | EXPRLIB_ERROR_UNDEFINED_VARIABLE
  | EXPRLIB_ERROR_DIVISION_BY_ZERO
  | EXPRLIB_ERROR_MALLOC_FAILED
  | EXPRLIB_ERROR_INVALID_ARGUMENT
  | EXPRLIB_ERROR_FUNCTION_NOT_FOUND
  | EXPRLIB_ERROR_NULL
  | EXPRLIB_ERROR_DUPLICATE_FUNCTION
  | EXPRLIB_ERROR_UNKNOWN

text \<open>
  The C type \<^verbatim>\<open>double\<close>, its operators and the functions of \<^verbatim>\<open>math.h\<close> are not part of the
  library. They are a parameter: a record of operations over a type \<open>'d\<close> of values.
  Nothing is assumed of them, so a statement proved for every such record holds for
  IEEE 754 arithmetic with its rounding, infinities and NaN.
\<close>

record 'd c_double =
  d_of_int :: "int \<Rightarrow> 'd"               \<comment> \<open>conversion of a C \<^verbatim>\<open>int\<close>; the literals \<^verbatim>\<open>0.0\<close>, \<^verbatim>\<open>1.0\<close>, ...\<close>
  d_tenth :: "'d"                        \<comment> \<open>the literal \<^verbatim>\<open>0.1\<close>\<close>
  d_add :: "'d \<Rightarrow> 'd \<Rightarrow> 'd"
  d_sub :: "'d \<Rightarrow> 'd \<Rightarrow> 'd"
  d_mul :: "'d \<Rightarrow> 'd \<Rightarrow> 'd"
  d_div :: "'d \<Rightarrow> 'd \<Rightarrow> 'd"
  d_eq :: "'d \<Rightarrow> 'd \<Rightarrow> bool"             \<comment> \<open>\<^verbatim>\<open>==\<close>\<close>
  d_lt :: "'d \<Rightarrow> 'd \<Rightarrow> bool"             \<comment> \<open>\<^verbatim>\<open><\<close>\<close>
  d_to_int :: "'d \<Rightarrow> int"               \<comment> \<open>the cast \<^verbatim>\<open>(int)\<close>\<close>
  d_pow :: "'d \<Rightarrow> 'd \<Rightarrow> 'd"              \<comment> \<open>\<^verbatim>\<open>pow\<close>\<close>
  d_libm :: "string \<Rightarrow> 'd \<Rightarrow> 'd"         \<comment> \<open>the one-argument functions of \<^verbatim>\<open>math.h\<close>, by name\<close>
  d_macro :: "string \<Rightarrow> 'd"             \<comment> \<open>the constants of \<^verbatim>\<open>math.h\<close>, by name\<close>

text \<open>A native function reads the argument array and may write \<^verbatim>\<open>EXPRLIB_ERROR\<close>.\<close>

type_synonym 'd ExprLibFnPtr = "'d list \<Rightarrow> ExprLibError \<Rightarrow> ('d \<times> ExprLibError) option"

record 'd ExprLibFunction =
  name :: string
  arity :: int
  fn :: "'d ExprLibFnPtr"

type_synonym 'd ExprLibConstant = "string \<times> 'd"

text \<open>
  A context entry holds a pointer to a slot of the caller; the context of the model holds
  the content of each slot at the time of the call. The context is never \<^verbatim>\<open>NULL\<close> here.
\<close>

type_synonym 'd ExprContext = "(string \<times> 'd) list"

datatype 'd ExprNode =
    Number 'd
  | Variable string
  | Operator char "'d ExprNode" "'d ExprNode"
  | FunctionCall string "'d ExprNode list"

text \<open>
  The globals of the library. \<open>invoked\<close> is not a variable of the C code: it records, in
  order, each call made through a function pointer of the registry, with its arguments.
\<close>

record 'd globals =
  EXPRLIB_ERROR :: ExprLibError
  g_functions :: "'d ExprLibFunction list"
  g_constants :: "'d ExprLibConstant list"
  invoked :: "(string \<times> 'd list) list"


section \<open>Reading the expression text\<close>

text \<open>
  The cursor \<^verbatim>\<open>*expr_ptr\<close> is the text not yet consumed. A C string ends with a NUL
  character, which is what the code reads at the end of the text. The parser never moves
  the cursor over a NUL character, so a text of the model that holds one is read as the
  C string that ends there.
\<close>

definition peek :: "string \<Rightarrow> char" where
  "peek s = (case s of [] \<Rightarrow> CHR 0x00 | c # _ \<Rightarrow> c)"

text \<open>\<^verbatim>\<open>while (**expr_ptr == ' ') (*expr_ptr)++;\<close>\<close>

fun skip_spaces :: "string \<Rightarrow> string" where
  "skip_spaces [] = []"
| "skip_spaces (c # s) = (if c = CHR '' '' then skip_spaces s else c # s)"

definition is_digit :: "char \<Rightarrow> bool" where
  "is_digit c \<longleftrightarrow> CHR ''0'' \<le> c \<and> c \<le> CHR ''9''"

definition is_alpha :: "char \<Rightarrow> bool" where
  "is_alpha c \<longleftrightarrow> (CHR ''a'' \<le> c \<and> c \<le> CHR ''z'') \<or> (CHR ''A'' \<le> c \<and> c \<le> CHR ''Z'')"

definition is_ident_char :: "char \<Rightarrow> bool" where
  "is_ident_char c \<longleftrightarrow>
     (CHR ''a'' \<le> c \<and> c \<le> CHR ''z'') \<or> (CHR ''A'' \<le> c \<and> c \<le> CHR ''Z'') \<or>
     (CHR ''0'' \<le> c \<and> c \<le> CHR ''9'') \<or> c = CHR ''_''"

text \<open>\<^verbatim>\<open>**expr_ptr - '0'\<close>, an \<^verbatim>\<open>int\<close>.\<close>

definition digit_val :: "char \<Rightarrow> int" where
  "digit_val c = int (of_char c) - 48"

text \<open>The two loops of \<^verbatim>\<open>parse_number\<close>: the integer part and the fractional part.\<close>

fun int_digits :: "'d c_double \<Rightarrow> 'd \<Rightarrow> bool \<Rightarrow> string \<Rightarrow> 'd \<times> bool \<times> string" where
  "int_digits D v found [] = (v, found, [])"
| "int_digits D v found (c # s) =
     (if is_digit c
      then int_digits D (d_add D (d_mul D v (d_of_int D 10)) (d_of_int D (digit_val c))) True s
      else (v, found, c # s))"

fun frac_digits :: "'d c_double \<Rightarrow> 'd \<Rightarrow> 'd \<Rightarrow> string \<Rightarrow> 'd \<times> string" where
  "frac_digits D v fr [] = (v, [])"
| "frac_digits D v fr (c # s) =
     (if is_digit c
      then frac_digits D (d_add D v (d_mul D (d_of_int D (digit_val c)) fr))
             (d_mul D fr (d_tenth D)) s
      else (v, c # s))"

text \<open>
  \<^verbatim>\<open>parse_number\<close> returns the value, the flag \<^verbatim>\<open>*found\<close> and the cursor. A fractional
  part is consumed also when no digit came before the point, and \<^verbatim>\<open>*found\<close> is then false.
\<close>

definition parse_number :: "'d c_double \<Rightarrow> string \<Rightarrow> 'd \<times> bool \<times> string" where
  "parse_number D s =
     (case int_digits D (d_of_int D 0) False (skip_spaces s) of
        (v, found, s1) \<Rightarrow>
          if peek s1 = CHR ''.''
          then (case frac_digits D v (d_tenth D) (tl s1) of (v', s2) \<Rightarrow> (v', found, s2))
          else (v, found, s1))"

text \<open>The loop of \<^verbatim>\<open>parse_unary\<close> that reads an identifier: the name and the cursor.\<close>

fun ident_chars :: "string \<Rightarrow> string \<times> string" where
  "ident_chars [] = ([], [])"
| "ident_chars (c # s) =
     (if is_ident_char c then (case ident_chars s of (nm, r) \<Rightarrow> (c # nm, r)) else ([], c # s))"

section \<open>Registry and constants\<close>

definition exprlib_register_constant :: "string \<Rightarrow> 'd \<Rightarrow> 'd globals \<Rightarrow> bool \<times> 'd globals" where
  "exprlib_register_constant nm v g = (True, g\<lparr>g_constants := g_constants g @ [(nm, v)]\<rparr>)"

text \<open>
  \<^verbatim>\<open>exprlib_register_function\<close>: a \<^verbatim>\<open>NULL\<close> name or function pointer is \<open>None\<close>.
\<close>

definition exprlib_register_function ::
  "string option \<Rightarrow> int \<Rightarrow> 'd ExprLibFnPtr option \<Rightarrow> 'd globals \<Rightarrow> bool \<times> 'd globals" where
  "exprlib_register_function nm ar f g =
     (case (nm, f) of
        (Some n, Some fp) \<Rightarrow>
          if n = [] then (False, g\<lparr>EXPRLIB_ERROR := EXPRLIB_ERROR_NULL\<rparr>)
          else if ar < -1 then (False, g\<lparr>EXPRLIB_ERROR := EXPRLIB_ERROR_INVALID_ARGUMENT\<rparr>)
          else if \<exists>e \<in> set (g_functions g). name e = n
            then (False, g\<lparr>EXPRLIB_ERROR := EXPRLIB_ERROR_DUPLICATE_FUNCTION\<rparr>)
          else (True, g\<lparr>g_functions := g_functions g @ [\<lparr>name = n, arity = ar, fn = fp\<rparr>]\<rparr>)
      | _ \<Rightarrow> (False, g\<lparr>EXPRLIB_ERROR := EXPRLIB_ERROR_NULL\<rparr>))"

text \<open>\<^verbatim>\<open>find_function\<close>: the first entry with the name, or \<^verbatim>\<open>NULL\<close>.\<close>

fun find_function :: "'d ExprLibFunction list \<Rightarrow> string \<Rightarrow> 'd ExprLibFunction option" where
  "find_function [] nm = None"
| "find_function (e # es) nm = (if name e = nm then Some e else find_function es nm)"

definition get_precedence :: "char \<Rightarrow> int" where
  "get_precedence op =
     (if op = CHR ''+'' \<or> op = CHR ''-'' then 10
      else if op = CHR ''*'' \<or> op = CHR ''/'' then 20
      else if op = CHR ''^'' then 30
      else -1)"

definition is_right_associative :: "char \<Rightarrow> bool" where
  "is_right_associative op \<longleftrightarrow> op = CHR ''^''"

text \<open>The two loops of \<^verbatim>\<open>is_defined_variable\<close>: constants, then the variables of the context.\<close>

definition is_defined_variable :: "string \<Rightarrow> 'd ExprContext \<Rightarrow> 'd globals \<Rightarrow> bool" where
  "is_defined_variable nm ctx g \<longleftrightarrow>
     (if \<exists>c \<in> set (g_constants g). fst c = nm then True
      else if \<exists>v \<in> set ctx. fst v = nm then True
      else False)"

section \<open>Node constructors\<close>

text \<open>
  Three of the four constructors store \<^verbatim>\<open>EXPRLIB_SUCCESS\<close> in \<^verbatim>\<open>EXPRLIB_ERROR\<close> before they
  allocate; \<^verbatim>\<open>create_function_node\<close> does not.
\<close>

definition create_number_node :: "'d \<Rightarrow> 'd globals \<Rightarrow> 'd ExprNode \<times> 'd globals" where
  "create_number_node v g = (Number v, g\<lparr>EXPRLIB_ERROR := EXPRLIB_SUCCESS\<rparr>)"

definition create_variable_node :: "string \<Rightarrow> 'd globals \<Rightarrow> 'd ExprNode \<times> 'd globals" where
  "create_variable_node nm g = (Variable nm, g\<lparr>EXPRLIB_ERROR := EXPRLIB_SUCCESS\<rparr>)"

definition create_operator_node ::
  "char \<Rightarrow> 'd ExprNode \<Rightarrow> 'd ExprNode \<Rightarrow> 'd globals \<Rightarrow> 'd ExprNode \<times> 'd globals" where
  "create_operator_node op l r g = (Operator op l r, g\<lparr>EXPRLIB_ERROR := EXPRLIB_SUCCESS\<rparr>)"

definition create_function_node ::
  "string \<Rightarrow> 'd ExprNode list \<Rightarrow> 'd globals \<Rightarrow> 'd ExprNode \<times> 'd globals" where
  "create_function_node nm args g = (FunctionCall nm args, g)"


section \<open>Parser\<close>

text \<open>
  The step of \<^verbatim>\<open>parse_binary_rhs\<close> that joins the two operands of \<^verbatim>\<open>op\<close>: two
  \<^verbatim>\<open>EXPR_NODE_NUMBER\<close> operands are replaced by the number computed from them, any other
  pair becomes an operator node. The result is the new \<^verbatim>\<open>lhs\<close>, or \<^verbatim>\<open>NULL\<close>.
  \<open>folded\<close> is what follows the \<^verbatim>\<open>switch\<close> once the number is computed.
\<close>

definition folded :: "'d \<Rightarrow> 'd globals \<Rightarrow> 'd ExprNode option \<times> 'd globals" where
  "folded result g =
     (case create_number_node result g of
        (n, g1) \<Rightarrow> if EXPRLIB_ERROR g1 \<noteq> EXPRLIB_SUCCESS then (None, g1) else (Some n, g1))"

definition combine ::
  "'d c_double \<Rightarrow> char \<Rightarrow> 'd ExprNode \<Rightarrow> 'd ExprNode \<Rightarrow> 'd globals
     \<Rightarrow> 'd ExprNode option \<times> 'd globals" where
  "combine D op lhs rhs g =
     (case (lhs, rhs) of
        (Number left_val, Number right_val) \<Rightarrow>
          if op = CHR ''+'' then folded (d_add D left_val right_val) g
          else if op = CHR ''-'' then folded (d_sub D left_val right_val) g
          else if op = CHR ''*'' then folded (d_mul D left_val right_val) g
          else if op = CHR ''/'' then
            (if d_eq D right_val (d_of_int D 0)
             then (None, g\<lparr>EXPRLIB_ERROR := EXPRLIB_ERROR_DIVISION_BY_ZERO\<rparr>)
             else folded (d_div D left_val right_val) g)
          else if op = CHR ''^'' then folded (d_pow D left_val right_val) g
          else (None, g\<lparr>EXPRLIB_ERROR := EXPRLIB_ERROR_UNKNOWN\<rparr>)
      | _ \<Rightarrow>
          (case create_operator_node op lhs rhs g of
             (n, g1) \<Rightarrow> if EXPRLIB_ERROR g1 \<noteq> EXPRLIB_SUCCESS then (None, g1) else (Some n, g1)))"


section \<open>Built-in functions\<close>

text \<open>
  Each built-in starts with an \<^verbatim>\<open>assert\<close> on the argument count \<^verbatim>\<open>n\<close>, here the length of
  the argument list. \<open>libm1\<close> is the shape of the one-argument wrappers.
\<close>

definition libm1 :: "'d c_double \<Rightarrow> string \<Rightarrow> 'd ExprLibFnPtr" where
  "libm1 D f a e = (if int (length a) = 1 then Some (d_libm D f (a ! 0), e) else None)"

definition fn_sin :: "'d c_double \<Rightarrow> 'd ExprLibFnPtr" where "fn_sin D = libm1 D ''sin''"
definition fn_cos :: "'d c_double \<Rightarrow> 'd ExprLibFnPtr" where "fn_cos D = libm1 D ''cos''"
definition fn_tan :: "'d c_double \<Rightarrow> 'd ExprLibFnPtr" where "fn_tan D = libm1 D ''tan''"

definition fn_cot :: "'d c_double \<Rightarrow> 'd ExprLibFnPtr" where
  "fn_cot D a e =
     (if int (length a) = 1 then Some (d_div D (d_of_int D 1) (d_libm D ''tan'' (a ! 0)), e) else None)"

definition fn_sec :: "'d c_double \<Rightarrow> 'd ExprLibFnPtr" where
  "fn_sec D a e =
     (if int (length a) = 1 then Some (d_div D (d_of_int D 1) (d_libm D ''cos'' (a ! 0)), e) else None)"

definition fn_cosec :: "'d c_double \<Rightarrow> 'd ExprLibFnPtr" where
  "fn_cosec D a e =
     (if int (length a) = 1 then Some (d_div D (d_of_int D 1) (d_libm D ''sin'' (a ! 0)), e) else None)"

definition fn_asin :: "'d c_double \<Rightarrow> 'd ExprLibFnPtr" where "fn_asin D = libm1 D ''asin''"
definition fn_acos :: "'d c_double \<Rightarrow> 'd ExprLibFnPtr" where "fn_acos D = libm1 D ''acos''"
definition fn_atan :: "'d c_double \<Rightarrow> 'd ExprLibFnPtr" where "fn_atan D = libm1 D ''atan''"

definition fn_pow :: "'d c_double \<Rightarrow> 'd ExprLibFnPtr" where
  "fn_pow D a e = (if int (length a) = 2 then Some (d_pow D (a ! 0) (a ! 1), e) else None)"

definition fn_sqrt :: "'d c_double \<Rightarrow> 'd ExprLibFnPtr" where "fn_sqrt D = libm1 D ''sqrt''"
definition fn_cbrt :: "'d c_double \<Rightarrow> 'd ExprLibFnPtr" where "fn_cbrt D = libm1 D ''cbrt''"
definition fn_log :: "'d c_double \<Rightarrow> 'd ExprLibFnPtr" where "fn_log D = libm1 D ''log''"
definition fn_log10 :: "'d c_double \<Rightarrow> 'd ExprLibFnPtr" where "fn_log10 D = libm1 D ''log10''"
definition fn_exp :: "'d c_double \<Rightarrow> 'd ExprLibFnPtr" where "fn_exp D = libm1 D ''exp''"
definition fn_abs :: "'d c_double \<Rightarrow> 'd ExprLibFnPtr" where "fn_abs D = libm1 D ''fabs''"
definition fn_floor :: "'d c_double \<Rightarrow> 'd ExprLibFnPtr" where "fn_floor D = libm1 D ''floor''"
definition fn_ceil :: "'d c_double \<Rightarrow> 'd ExprLibFnPtr" where "fn_ceil D = libm1 D ''ceil''"
definition fn_round :: "'d c_double \<Rightarrow> 'd ExprLibFnPtr" where "fn_round D = libm1 D ''round''"

definition fn_deg2rad :: "'d c_double \<Rightarrow> 'd ExprLibFnPtr" where
  "fn_deg2rad D a e =
     (if int (length a) = 1
      then Some (d_mul D (a ! 0) (d_div D (d_macro D ''M_PI'') (d_of_int D 180)), e) else None)"

definition fn_rad2deg :: "'d c_double \<Rightarrow> 'd ExprLibFnPtr" where
  "fn_rad2deg D a e =
     (if int (length a) = 1
      then Some (d_mul D (a ! 0) (d_div D (d_of_int D 180) (d_macro D ''M_PI'')), e) else None)"

text \<open>The loops of \<^verbatim>\<open>fn_min\<close> and \<^verbatim>\<open>fn_max\<close> over \<^verbatim>\<open>a[1]\<close>, ..., \<^verbatim>\<open>a[n-1]\<close>.\<close>

fun min_loop :: "'d c_double \<Rightarrow> 'd \<Rightarrow> 'd list \<Rightarrow> 'd" where
  "min_loop D min_val [] = min_val"
| "min_loop D min_val (x # xs) = min_loop D (if d_lt D x min_val then x else min_val) xs"

fun max_loop :: "'d c_double \<Rightarrow> 'd \<Rightarrow> 'd list \<Rightarrow> 'd" where
  "max_loop D max_val [] = max_val"
| "max_loop D max_val (x # xs) = max_loop D (if d_lt D max_val x then x else max_val) xs"

definition fn_min :: "'d c_double \<Rightarrow> 'd ExprLibFnPtr" where
  "fn_min D a e = (if int (length a) \<ge> 1 then Some (min_loop D (a ! 0) (tl a), e) else None)"

definition fn_max :: "'d c_double \<Rightarrow> 'd ExprLibFnPtr" where
  "fn_max D a e = (if int (length a) \<ge> 1 then Some (max_loop D (a ! 0) (tl a), e) else None)"

text \<open>
  \<^verbatim>\<open>factorial\<close>: the loop runs \<^verbatim>\<open>i\<close> from 1 to \<^verbatim>\<open>(int)a[0]\<close>. The cast is taken to be
  defined, and \<^verbatim>\<open>i\<close> not to overflow.
\<close>

definition factorial :: "'d c_double \<Rightarrow> 'd ExprLibFnPtr" where
  "factorial D a e =
     (if int (length a) = 1 then
        (if d_lt D (a ! 0) (d_of_int D 0) then Some (d_of_int D 0, EXPRLIB_ERROR_INVALID_ARGUMENT)
         else Some (foldl (\<lambda>result i. d_mul D result (d_of_int D i)) (d_of_int D 1)
                      [1 .. d_to_int D (a ! 0)], e))
      else None)"

definition nCr :: "'d c_double \<Rightarrow> 'd ExprLibFnPtr" where
  "nCr D a e =
     (if int (length a) = 2 then
        (if d_lt D (a ! 0) (d_of_int D 0) \<or> d_lt D (a ! 1) (d_of_int D 0) \<or> d_lt D (a ! 0) (a ! 1)
         then Some (d_of_int D 0, EXPRLIB_ERROR_INVALID_ARGUMENT)
         else
           (case factorial D [a ! 0] e of None \<Rightarrow> None | Some (f0, e0) \<Rightarrow>
            (case factorial D [a ! 1] e0 of None \<Rightarrow> None | Some (f1, e1) \<Rightarrow>
             (case factorial D [d_sub D (a ! 0) (a ! 1)] e1 of None \<Rightarrow> None | Some (f2, e2) \<Rightarrow>
                Some (d_div D f0 (d_mul D f1 f2), e2)))))
      else None)"

definition nPr :: "'d c_double \<Rightarrow> 'd ExprLibFnPtr" where
  "nPr D a e =
     (if int (length a) = 2 then
        (if d_lt D (a ! 0) (d_of_int D 0) \<or> d_lt D (a ! 1) (d_of_int D 0) \<or> d_lt D (a ! 0) (a ! 1)
         then Some (d_of_int D 0, EXPRLIB_ERROR_INVALID_ARGUMENT)
         else
           (case factorial D [a ! 0] e of None \<Rightarrow> None | Some (f0, e0) \<Rightarrow>
            (case factorial D [d_sub D (a ! 0) (a ! 1)] e0 of None \<Rightarrow> None | Some (f1, e1) \<Rightarrow>
                Some (d_div D f0 f1, e1))))
      else None)"

text \<open>
  \<^verbatim>\<open>exprlib_register_builtins\<close> registers the functions, then the constants, in this order
  and without looking at what the calls return.
\<close>

definition builtin_functions :: "'d c_double \<Rightarrow> (string \<times> int \<times> 'd ExprLibFnPtr) list" where
  "builtin_functions D =
     [(''sin'', 1, fn_sin D), (''cos'', 1, fn_cos D), (''tan'', 1, fn_tan D),
      (''cot'', 1, fn_cot D), (''sec'', 1, fn_sec D), (''cosec'', 1, fn_cosec D),
      (''asin'', 1, fn_asin D), (''acos'', 1, fn_acos D), (''atan'', 1, fn_atan D),
      (''pow'', 2, fn_pow D), (''sqrt'', 1, fn_sqrt D), (''cbrt'', 1, fn_cbrt D),
      (''ln'', 1, fn_log D), (''log10'', 1, fn_log10 D),
      (''exp'', 1, fn_exp D),
      (''abs'', 1, fn_abs D), (''floor'', 1, fn_floor D), (''ceil'', 1, fn_ceil D),
      (''round'', 1, fn_round D),
      (''deg2rad'', 1, fn_deg2rad D), (''rad2deg'', 1, fn_rad2deg D),
      (''min'', -1, fn_min D), (''max'', -1, fn_max D),
      (''factorial'', 1, factorial D),
      (''nCr'', 2, nCr D), (''nPr'', 2, nPr D)]"

definition builtin_constants :: "'d c_double \<Rightarrow> (string \<times> 'd) list" where
  "builtin_constants D =
     [(''pi'', d_macro D ''M_PI''),
      (''e'', d_macro D ''M_E''),
      (''tau'', d_mul D (d_of_int D 2) (d_macro D ''M_PI'')),
      (''phi'', d_div D (d_add D (d_of_int D 1) (d_libm D ''sqrt'' (d_of_int D 5))) (d_of_int D 2)),
      (''sqrt2'', d_macro D ''M_SQRT2''),
      (''sqrt3'', d_libm D ''sqrt'' (d_of_int D 3)),
      (''sqrt5'', d_libm D ''sqrt'' (d_of_int D 5)),
      (''ln2'', d_macro D ''M_LN2''),
      (''ln10'', d_macro D ''M_LN10''),
      (''log2e'', d_macro D ''M_LOG2E''),
      (''log10e'', d_macro D ''M_LOG10E''),
      (''invpi'', d_div D (d_of_int D 1) (d_macro D ''M_PI'')),
      (''inv2pi'', d_div D (d_of_int D 1) (d_mul D (d_of_int D 2) (d_macro D ''M_PI'')))]"

definition exprlib_register_builtins :: "'d c_double \<Rightarrow> 'd globals \<Rightarrow> 'd globals" where
  "exprlib_register_builtins D g =
     foldl (\<lambda>g (nm, v). snd (exprlib_register_constant nm v g))
       (foldl (\<lambda>g (nm, ar, f). snd (exprlib_register_function (Some nm) ar (Some f) g))
          g (builtin_functions D))
       (builtin_constants D)"

text \<open>\<^verbatim>\<open>exprlib_init\<close> empties the function table, not the table of constants.\<close>

definition exprlib_init :: "'d c_double \<Rightarrow> 'd globals \<Rightarrow> 'd globals" where
  "exprlib_init D g = exprlib_register_builtins D (g\<lparr>g_functions := []\<rparr>)"

text \<open>The globals when the program starts.\<close>

definition start :: "'d globals" where
  "start = \<lparr>EXPRLIB_ERROR = EXPRLIB_SUCCESS, g_functions = [], g_constants = [], invoked = []\<rparr>"

section \<open>Evaluator\<close>

text \<open>
  \<^verbatim>\<open>evaluate_node\<close> returns the value and the globals, or \<open>None\<close> when an assertion of a
  native function ended the process. \<open>evaluate_args\<close> is the loop that fills \<^verbatim>\<open>argv\<close>.
  The nodes of a tree are not \<^verbatim>\<open>NULL\<close>; the \<^verbatim>\<open>NULL\<close> test of \<^verbatim>\<open>evaluate_node\<close> is in
  \<open>exprlib_evaluate\<close>, where the root may be \<^verbatim>\<open>NULL\<close>.
\<close>

fun evaluate_node ::
    "'d c_double \<Rightarrow> 'd ExprNode \<Rightarrow> 'd ExprContext \<Rightarrow> 'd globals \<Rightarrow> ('d \<times> 'd globals) option"
  and evaluate_args ::
    "'d c_double \<Rightarrow> 'd ExprNode list \<Rightarrow> 'd ExprContext \<Rightarrow> 'd globals
       \<Rightarrow> ('d list \<times> 'd globals) option"
where
  "evaluate_node D (Number v) ctx g = Some (v, g)"
| "evaluate_node D (Variable nm) ctx g =
     (case map_of (g_constants g) nm of
        Some v \<Rightarrow> Some (v, g)
      | None \<Rightarrow>
          (case map_of ctx nm of
             Some v \<Rightarrow> Some (v, g)
           | None \<Rightarrow> Some (d_of_int D 0, g\<lparr>EXPRLIB_ERROR := EXPRLIB_ERROR_UNDEFINED_VARIABLE\<rparr>)))"
| "evaluate_node D (Operator op left right) ctx g =
     (case evaluate_node D left ctx g of
        None \<Rightarrow> None
      | Some (left_val, g1) \<Rightarrow>
          if EXPRLIB_ERROR g1 \<noteq> EXPRLIB_SUCCESS then Some (d_of_int D 0, g1)
          else
            (case evaluate_node D right ctx g1 of
               None \<Rightarrow> None
             | Some (right_val, g2) \<Rightarrow>
                 if EXPRLIB_ERROR g2 \<noteq> EXPRLIB_SUCCESS then Some (d_of_int D 0, g2)
                 else if op = CHR ''+'' then Some (d_add D left_val right_val, g2)
                 else if op = CHR ''-'' then Some (d_sub D left_val right_val, g2)
                 else if op = CHR ''*'' then Some (d_mul D left_val right_val, g2)
                 else if op = CHR ''/'' then
                   (if d_eq D right_val (d_of_int D 0)
                    then Some (d_of_int D 0, g2\<lparr>EXPRLIB_ERROR := EXPRLIB_ERROR_DIVISION_BY_ZERO\<rparr>)
                    else Some (d_div D left_val right_val, g2))
                 else if op = CHR ''^'' then Some (d_pow D left_val right_val, g2)
                 else Some (d_of_int D 0, g2\<lparr>EXPRLIB_ERROR := EXPRLIB_ERROR_UNKNOWN\<rparr>)))"
| "evaluate_node D (FunctionCall nm args) ctx g =
     (case find_function (g_functions g) nm of
        None \<Rightarrow> Some (d_of_int D 0, g\<lparr>EXPRLIB_ERROR := EXPRLIB_ERROR_UNKNOWN\<rparr>)
      | Some f \<Rightarrow>
          if arity f \<noteq> -1 \<and> arity f \<noteq> int (length args)
          then Some (d_of_int D 0, g\<lparr>EXPRLIB_ERROR := EXPRLIB_ERROR_SYNTAX\<rparr>)
          else
            (case evaluate_args D args ctx g of
               None \<Rightarrow> None
             | Some (argv, g1) \<Rightarrow>
                 (case fn f argv (EXPRLIB_ERROR g1) of
                    None \<Rightarrow> None
                  | Some (v, e) \<Rightarrow>
                      Some (v, g1\<lparr>EXPRLIB_ERROR := e, invoked := invoked g1 @ [(name f, argv)]\<rparr>))))"
| "evaluate_args D [] ctx g = Some ([], g)"
| "evaluate_args D (a # as) ctx g =
     (case evaluate_node D a ctx g of
        None \<Rightarrow> None
      | Some (v, g1) \<Rightarrow>
          (case evaluate_args D as ctx g1 of
             None \<Rightarrow> None
           | Some (vs, g2) \<Rightarrow> Some (v # vs, g2)))"

definition exprlib_evaluate ::
  "'d c_double \<Rightarrow> 'd ExprNode option \<Rightarrow> 'd ExprContext \<Rightarrow> 'd globals \<Rightarrow> ('d \<times> 'd globals) option" where
  "exprlib_evaluate D expr ctx g =
     (case expr of
        None \<Rightarrow> Some (d_of_int D 0, g\<lparr>EXPRLIB_ERROR := EXPRLIB_ERROR_UNKNOWN\<rparr>)
      | Some node \<Rightarrow> evaluate_node D node ctx (g\<lparr>EXPRLIB_ERROR := EXPRLIB_SUCCESS\<rparr>))"


section \<open>A reading of the double operations over the reals\<close>

text \<open>
  The concrete inputs below are evaluated with the operations of the real numbers. On the
  numbers that occur there (integers of small size and their sums, products, quotients
  and powers, all of them exact in binary floating point) this is the result IEEE 754
  arithmetic gives.
\<close>

definition real_pow :: "real \<Rightarrow> real \<Rightarrow> real" where
  "real_pow a b =
     (if b = of_int \<lfloor>b\<rfloor>
      then (if 0 \<le> b then a ^ nat \<lfloor>b\<rfloor> else 1 / a ^ nat (- \<lfloor>b\<rfloor>))
      else a powr b)"

definition real_libm :: "string \<Rightarrow> real \<Rightarrow> real" where
  "real_libm f =
     (if f = ''sin'' then sin else if f = ''cos'' then cos else if f = ''tan'' then tan
      else if f = ''asin'' then arcsin else if f = ''acos'' then arccos
      else if f = ''atan'' then arctan
      else if f = ''sqrt'' then sqrt else if f = ''cbrt'' then root 3
      else if f = ''log'' then ln else if f = ''log10'' then log 10
      else if f = ''exp'' then exp else if f = ''fabs'' then abs
      else if f = ''floor'' then (\<lambda>x. of_int \<lfloor>x\<rfloor>)
      else if f = ''ceil'' then (\<lambda>x. of_int \<lceil>x\<rceil>)
      else if f = ''round'' then (\<lambda>x. if 0 \<le> x then of_int \<lfloor>x + 1 / 2\<rfloor> else of_int \<lceil>x - 1 / 2\<rceil>)
      else (\<lambda>x. x))"

definition real_macro :: "string \<Rightarrow> real" where
  "real_macro m =
     (if m = ''M_PI'' then pi else if m = ''M_E'' then exp 1
      else if m = ''M_SQRT2'' then sqrt 2
      else if m = ''M_LN2'' then ln 2 else if m = ''M_LN10'' then ln 10
      else if m = ''M_LOG2E'' then log 2 (exp 1) else if m = ''M_LOG10E'' then log 10 (exp 1)
      else 0)"

definition exact :: "real c_double" where
  "exact =
     \<lparr>d_of_int = of_int, d_tenth = 1 / 10,
      d_add = (+), d_sub = (-), d_mul = (*), d_div = (/),
      d_eq = (=), d_lt = (<),
      d_to_int = (\<lambda>x. if 0 \<le> x then \<lfloor>x\<rfloor> else \<lceil>x\<rceil>),
      d_pow = real_pow, d_libm = real_libm, d_macro = real_macro\<rparr>"

section \<open>A reading of the double operations with a value that is not a number\<close>






section \<open>Parser: the recursive descent\<close>

text \<open>
  \<open>parse_args\<close> is the \<^verbatim>\<open>for (;;)\<close> loop of \<^verbatim>\<open>parse_unary\<close> that reads the arguments of a
  call; it returns the arguments read so far, or \<open>None\<close> where \<^verbatim>\<open>parse_unary\<close> returns
  \<^verbatim>\<open>NULL\<close> from inside the loop. Every function returns the node (or \<^verbatim>\<open>NULL\<close>), the cursor
  and the globals. \<^verbatim>\<open>lhs\<close> of \<^verbatim>\<open>parse_binary_rhs\<close> is not \<^verbatim>\<open>NULL\<close>.
\<close>

function parse_unary ::
    "'d c_double \<Rightarrow> string \<Rightarrow> 'd ExprContext \<Rightarrow> 'd globals
       \<Rightarrow> 'd ExprNode option \<times> string \<times> 'd globals"
  and parse_args ::
    "'d c_double \<Rightarrow> 'd ExprNode list \<Rightarrow> string \<Rightarrow> 'd ExprContext \<Rightarrow> 'd globals
       \<Rightarrow> 'd ExprNode list option \<times> string \<times> 'd globals"
  and parse_binary_rhs ::
    "'d c_double \<Rightarrow> int \<Rightarrow> 'd ExprNode \<Rightarrow> string \<Rightarrow> 'd ExprContext \<Rightarrow> 'd globals
       \<Rightarrow> 'd ExprNode option \<times> string \<times> 'd globals"
  and parse_internal ::
    "'d c_double \<Rightarrow> string \<Rightarrow> 'd ExprContext \<Rightarrow> 'd globals
       \<Rightarrow> 'd ExprNode option \<times> string \<times> 'd globals"
where
  "parse_unary D s ctx g =
     (let s0 = skip_spaces s in
      if peek s0 = CHR ''-'' then
        (case parse_unary D (tl s0) ctx g of
           (None, s1, g1) \<Rightarrow> (None, s1, g1)
         | (Some operand, s1, g1) \<Rightarrow>
             if EXPRLIB_ERROR g1 \<noteq> EXPRLIB_SUCCESS then (None, s1, g1)
             else (case create_number_node (d_of_int D 0) g1 of
                (zero, g2) \<Rightarrow>
                  if EXPRLIB_ERROR g2 \<noteq> EXPRLIB_SUCCESS then (None, s1, g2)
                  else (case create_operator_node (CHR ''-'') zero operand g2 of
                     (node, g3) \<Rightarrow>
                       if EXPRLIB_ERROR g3 \<noteq> EXPRLIB_SUCCESS then (None, s1, g3)
                       else (Some node, s1, g3))))
      else if peek s0 = CHR ''('' then
        (case parse_internal D (tl s0) ctx g of
           (None, s1, g1) \<Rightarrow> (None, s1, g1)
         | (Some node, s1, g1) \<Rightarrow>
             if EXPRLIB_ERROR g1 \<noteq> EXPRLIB_SUCCESS then (None, s1, g1)
             else if peek s1 \<noteq> CHR '')'' then (None, s1, g1\<lparr>EXPRLIB_ERROR := EXPRLIB_ERROR_SYNTAX\<rparr>)
             else (Some node, tl s1, g1))
      else
        (case parse_number D s0 of
           (number, found_number, s1) \<Rightarrow>
             if found_number then
               (case create_number_node number g of (node, g1) \<Rightarrow> (Some node, s1, g1))
             else if is_alpha (peek s1) then
               (case ident_chars s1 of
                  (nm, s2) \<Rightarrow>
                    let look = skip_spaces s2 in
                    if peek look = CHR ''('' then
                      (let s3 = skip_spaces (tl look) in
                       if peek s3 \<noteq> CHR '')'' then
                         (case parse_args D [] s3 ctx g of
                            (None, s4, g4) \<Rightarrow> (None, s4, g4)
                          | (Some args, s4, g4) \<Rightarrow>
                              if peek s4 \<noteq> CHR '')''
                              then (None, s4, g4\<lparr>EXPRLIB_ERROR := EXPRLIB_ERROR_SYNTAX\<rparr>)
                              else (case create_function_node nm args g4 of
                                      (fn_node, g5) \<Rightarrow> (Some fn_node, tl s4, g5)))
                       else (case create_function_node nm [] g of
                               (fn_node, g5) \<Rightarrow> (Some fn_node, tl s3, g5)))
                    else if \<not> is_defined_variable nm ctx g
                      then (None, s2, g\<lparr>EXPRLIB_ERROR := EXPRLIB_ERROR_UNDEFINED_VARIABLE\<rparr>)
                    else (case create_variable_node nm g of (node, g1) \<Rightarrow> (Some node, s2, g1)))
             else (None, s1, g\<lparr>EXPRLIB_ERROR := EXPRLIB_ERROR_SYNTAX\<rparr>)))"
| "parse_args D args s ctx g =
     (case parse_internal D s ctx g of
        (None, s1, g1) \<Rightarrow> (None, s1, g1)
      | (Some arg, s1, g1) \<Rightarrow>
          if EXPRLIB_ERROR g1 \<noteq> EXPRLIB_SUCCESS then (None, s1, g1)
          else
            (let s2 = skip_spaces s1 in
             if peek s2 = CHR '','' then parse_args D (args @ [arg]) (skip_spaces (tl s2)) ctx g1
             else if peek s2 = CHR '')'' then (Some (args @ [arg]), s2, g1)
             else (None, s2, g1\<lparr>EXPRLIB_ERROR := EXPRLIB_ERROR_SYNTAX\<rparr>)))"
| "parse_binary_rhs D expr_prec lhs s ctx g =
     (let s0 = skip_spaces s; op = peek s0; tok_prec = get_precedence op in
      if tok_prec < expr_prec then (Some lhs, s0, g)
      else
        (case parse_unary D (tl s0) ctx g of
           (None, s1, g1) \<Rightarrow> (None, s1, g1)
         | (Some rhs, s1, g1) \<Rightarrow>
             (let s2 = skip_spaces s1; next_prec = get_precedence (peek s2) in
              case (if tok_prec < next_prec \<or> (tok_prec = next_prec \<and> is_right_associative op)
                    then parse_binary_rhs D (tok_prec + 1) rhs s2 ctx g1
                    else (Some rhs, s2, g1)) of
                (None, s3, g3) \<Rightarrow> (None, s3, g3)
              | (Some rhs', s3, g3) \<Rightarrow>
                  (case combine D op lhs rhs' g3 of
                     (None, g4) \<Rightarrow> (None, s3, g4)
                   | (Some lhs', g4) \<Rightarrow> parse_binary_rhs D expr_prec lhs' s3 ctx g4))))"
| "parse_internal D s ctx g =
     (case parse_unary D s ctx g of
        (None, s1, g1) \<Rightarrow> (None, s1, g1)
      | (Some lhs, s1, g1) \<Rightarrow>
          if EXPRLIB_ERROR g1 \<noteq> EXPRLIB_SUCCESS then (None, s1, g1)
          else parse_binary_rhs D 0 lhs s1 ctx g1)"
  by pat_completeness auto

text \<open>\<^verbatim>\<open>exprlib_parse\<close> returns the node; the cursor is a local variable and is dropped.\<close>

definition exprlib_parse ::
  "'d c_double \<Rightarrow> string \<Rightarrow> 'd ExprContext \<Rightarrow> 'd globals \<Rightarrow> 'd ExprNode option \<times> 'd globals" where
  "exprlib_parse D expression ctx g =
     (case parse_internal D expression ctx (g\<lparr>EXPRLIB_ERROR := EXPRLIB_SUCCESS\<rparr>) of
        (node, ptr, g') \<Rightarrow> (node, g'))"

section \<open>Texts\<close>

text \<open>
  Two classes of text used to state what the parser does: a run of blanks, and an
  identifier as \<^verbatim>\<open>parse_unary\<close> reads one (a letter, then letters, digits and underscores).
\<close>

definition all_spaces :: "string \<Rightarrow> bool" where
  "all_spaces sp \<longleftrightarrow> (\<forall>c \<in> set sp. c = CHR '' '')"

definition is_identifier :: "string \<Rightarrow> bool" where
  "is_identifier z \<longleftrightarrow> z \<noteq> [] \<and> is_alpha (hd z) \<and> (\<forall>c \<in> set z. is_ident_char c)"



text \<open>
  A text that ends an expression when it follows one: its first character does not
  continue a number or an identifier, and its first character after blanks is neither a
  binary operator nor an opening parenthesis.
\<close>

definition ends_expression :: "string \<Rightarrow> bool" where
  "ends_expression t \<longleftrightarrow>
     \<not> is_ident_char (peek t) \<and> peek t \<noteq> CHR ''.'' \<and>
     get_precedence (peek (skip_spaces t)) < 0 \<and> peek (skip_spaces t) \<noteq> CHR ''(''"

section \<open>The calls of the parser\<close>

text \<open>
  A call of one of the four functions of the parser, for a given arithmetic and context:
  the arguments that vary are the precedence, the left operand or the arguments read so
  far, the cursor and the globals. \<open>calls D ctx x y\<close> holds when the call \<open>x\<close> makes the
  call \<open>y\<close>: one rule for each place of the source where a function of the parser is called,
  under the conditions that lead there. \<open>returns\<close> tells whether a call returns \<^verbatim>\<open>NULL\<close>, and
  the globals it leaves.
\<close>

datatype 'd parser_call =
    Unary string "'d globals"
  | Args "'d ExprNode list" string "'d globals"
  | Binary int "'d ExprNode" string "'d globals"
  | Internal string "'d globals"

inductive calls :: "'d c_double \<Rightarrow> 'd ExprContext \<Rightarrow> 'd parser_call \<Rightarrow> 'd parser_call \<Rightarrow> bool"
  for D :: "'d c_double" and ctx :: "'d ExprContext"
where
  minus:
    "peek (skip_spaces s) = CHR ''-'' \<Longrightarrow>
     calls D ctx (Unary s g) (Unary (tl (skip_spaces s)) g)"
| parenthesis:
    "peek (skip_spaces s) = CHR ''('' \<Longrightarrow>
     calls D ctx (Unary s g) (Internal (tl (skip_spaces s)) g)"
| arguments:
    "peek (skip_spaces s) \<noteq> CHR ''-'' \<Longrightarrow> peek (skip_spaces s) \<noteq> CHR ''('' \<Longrightarrow>
     parse_number D (skip_spaces s) = (v, False, s1) \<Longrightarrow> is_alpha (peek s1) \<Longrightarrow>
     ident_chars s1 = (nm, s2) \<Longrightarrow> peek (skip_spaces s2) = CHR ''('' \<Longrightarrow>
     peek (skip_spaces (tl (skip_spaces s2))) \<noteq> CHR '')'' \<Longrightarrow>
     calls D ctx (Unary s g) (Args [] (skip_spaces (tl (skip_spaces s2))) g)"
| argument:
    "calls D ctx (Args args s g) (Internal s g)"
| next_argument:
    "parse_internal D s ctx g = (Some arg, s1, g1) \<Longrightarrow> EXPRLIB_ERROR g1 = EXPRLIB_SUCCESS \<Longrightarrow>
     peek (skip_spaces s1) = CHR '','' \<Longrightarrow>
     calls D ctx (Args args s g) (Args (args @ [arg]) (skip_spaces (tl (skip_spaces s1))) g1)"
| operand:
    "\<not> get_precedence (peek (skip_spaces s)) < expr_prec \<Longrightarrow>
     calls D ctx (Binary expr_prec lhs s g) (Unary (tl (skip_spaces s)) g)"
| tighter:
    "\<not> get_precedence (peek (skip_spaces s)) < expr_prec \<Longrightarrow>
     parse_unary D (tl (skip_spaces s)) ctx g = (Some rhs, s1, g1) \<Longrightarrow>
     get_precedence (peek (skip_spaces s)) < get_precedence (peek (skip_spaces s1)) \<or>
       (get_precedence (peek (skip_spaces s)) = get_precedence (peek (skip_spaces s1)) \<and>
        is_right_associative (peek (skip_spaces s))) \<Longrightarrow>
     calls D ctx (Binary expr_prec lhs s g)
       (Binary (get_precedence (peek (skip_spaces s)) + 1) rhs (skip_spaces s1) g1)"
| again:
    "\<not> get_precedence (peek (skip_spaces s)) < expr_prec \<Longrightarrow>
     parse_unary D (tl (skip_spaces s)) ctx g = (Some rhs, s1, g1) \<Longrightarrow>
     (if get_precedence (peek (skip_spaces s)) < get_precedence (peek (skip_spaces s1)) \<or>
         (get_precedence (peek (skip_spaces s)) = get_precedence (peek (skip_spaces s1)) \<and>
          is_right_associative (peek (skip_spaces s)))
      then parse_binary_rhs D (get_precedence (peek (skip_spaces s)) + 1) rhs (skip_spaces s1) ctx g1
      else (Some rhs, skip_spaces s1, g1)) = (Some rhs', s3, g3) \<Longrightarrow>
     combine D (peek (skip_spaces s)) lhs rhs' g3 = (Some lhs', g4) \<Longrightarrow>
     calls D ctx (Binary expr_prec lhs s g) (Binary expr_prec lhs' s3 g4)"
| first_operand:
    "calls D ctx (Internal s g) (Unary s g)"
| operators:
    "parse_unary D s ctx g = (Some lhs, s1, g1) \<Longrightarrow> EXPRLIB_ERROR g1 = EXPRLIB_SUCCESS \<Longrightarrow>
     calls D ctx (Internal s g) (Binary 0 lhs s1 g1)"

fun returns :: "'d c_double \<Rightarrow> 'd ExprContext \<Rightarrow> 'd parser_call \<Rightarrow> bool \<times> 'd globals" where
  "returns D ctx (Unary s g) = (case parse_unary D s ctx g of (n, r, g') \<Rightarrow> (n = None, g'))"
| "returns D ctx (Args args s g) = (case parse_args D args s ctx g of (n, r, g') \<Rightarrow> (n = None, g'))"
| "returns D ctx (Binary expr_prec lhs s g) =
     (case parse_binary_rhs D expr_prec lhs s ctx g of (n, r, g') \<Rightarrow> (n = None, g'))"
| "returns D ctx (Internal s g) = (case parse_internal D s ctx g of (n, r, g') \<Rightarrow> (n = None, g'))"

fun globals_of :: "'d parser_call \<Rightarrow> 'd globals" where
  "globals_of (Unary s g) = g"
| "globals_of (Args args s g) = g"
| "globals_of (Binary expr_prec lhs s g) = g"
| "globals_of (Internal s g) = g"

text \<open>
  \<open>only_error g g'\<close>: the globals \<open>g'\<close> differ from \<open>g\<close> in \<^verbatim>\<open>EXPRLIB_ERROR\<close> at most.
  \<open>reported g n g'\<close>: a call entered with \<open>g\<close> that returned \<open>n\<close> and left \<open>g'\<close> changed
  \<^verbatim>\<open>EXPRLIB_ERROR\<close> only, left an error code when it returned \<^verbatim>\<open>NULL\<close>, and left
  \<^verbatim>\<open>EXPRLIB_SUCCESS\<close> when it was entered with it and returned a node.
\<close>

definition only_error :: "'d globals \<Rightarrow> 'd globals \<Rightarrow> bool" where
  "only_error g g' \<longleftrightarrow>
     g_functions g' = g_functions g \<and> g_constants g' = g_constants g \<and> invoked g' = invoked g"

definition reported :: "'d globals \<Rightarrow> 'a option \<Rightarrow> 'd globals \<Rightarrow> bool" where
  "reported g n g' \<longleftrightarrow>
     only_error g g' \<and>
     (n = None \<longrightarrow> EXPRLIB_ERROR g' \<noteq> EXPRLIB_SUCCESS) \<and>
     (EXPRLIB_ERROR g = EXPRLIB_SUCCESS \<longrightarrow> n \<noteq> None \<longrightarrow> EXPRLIB_ERROR g' = EXPRLIB_SUCCESS)"

section \<open>The parser terminates\<close>

text \<open>
  Every call of the parser leaves a cursor that is not before the one it was given, and a
  call of \<^verbatim>\<open>parse_unary\<close> or \<^verbatim>\<open>parse_internal\<close> that returns a node has consumed at least
  one character. This is proved on the domain of the functions first, and gives their
  termination on every text.
\<close>

lemma length_skip_spaces: "length (skip_spaces s) \<le> length s"
  by (induction s) auto

lemma length_int_digits:
  "int_digits D v f s = (v', f', r) \<Longrightarrow> length r \<le> length s \<and> (f' \<and> \<not> f \<longrightarrow> length r < length s)"
  by (induction s arbitrary: v f) (fastforce split: if_splits)+

lemma length_frac_digits: "frac_digits D v fr s = (v', r) \<Longrightarrow> length r \<le> length s"
  by (induction s arbitrary: v fr) (fastforce split: if_splits)+

lemma length_parse_number:
  assumes "parse_number D s = (v, found, r)"
  shows "length r \<le> length s \<and> (found \<longrightarrow> length r < length s)"
proof -
  obtain v1 f1 s1 where a: "int_digits D (d_of_int D 0) False (skip_spaces s) = (v1, f1, s1)"
    by (metis prod_cases3)
  from length_int_digits[OF a] length_skip_spaces[of s]
  have b: "length s1 \<le> length s \<and> (f1 \<longrightarrow> length s1 < length s)" by auto
  show ?thesis
  proof (cases "peek s1 = CHR ''.''")
    case True
    obtain v2 s2 where c: "frac_digits D v1 (d_tenth D) (tl s1) = (v2, s2)" by (metis prod.exhaust)
    from length_frac_digits[OF c] have "length s2 \<le> length s1" by (simp add: le_diff_conv)
    with assms a b c True show ?thesis by (auto simp: parse_number_def)
  next
    case False
    with assms a b show ?thesis by (auto simp: parse_number_def)
  qed
qed

lemma length_ident_chars:
  "ident_chars s = (nm, r) \<Longrightarrow> length r + length nm = length s"
  by (induction s arbitrary: nm r) (auto split: if_splits prod.splits)

lemma is_alpha_ident_char: "is_alpha c \<Longrightarrow> is_ident_char c"
  by (auto simp: is_alpha_def is_ident_char_def)

lemma not_alpha_NUL: "\<not> is_alpha (CHR 0x00)"
  by (simp add: is_alpha_def)

lemma ident_chars_alpha:
  "is_alpha (peek s) \<Longrightarrow> ident_chars s = (nm, r) \<Longrightarrow> length r < length s"
  by (cases s) (auto simp: peek_def not_alpha_NUL is_alpha_ident_char split: prod.splits dest: length_ident_chars)


lemma tl_peek_less: "peek s = c \<Longrightarrow> c \<noteq> CHR 0x00 \<Longrightarrow> length (tl s) < length s"
  by (cases s) (auto simp: peek_def)

lemma parser_length:
  "parse_unary_parse_args_parse_binary_rhs_parse_internal_dom (Inl (Inl (D, s, ctx, g))) \<Longrightarrow>
     (case parse_unary D s ctx g of
        (n, r, _) \<Rightarrow> length r \<le> length s \<and> (n \<noteq> None \<longrightarrow> length r < length s))"
  "parse_unary_parse_args_parse_binary_rhs_parse_internal_dom (Inl (Inr (D, args, s, ctx, g))) \<Longrightarrow>
     (case parse_args D args s ctx g of (n, r, _) \<Rightarrow> length r \<le> length s)"
  "parse_unary_parse_args_parse_binary_rhs_parse_internal_dom (Inr (Inl (D, expr_prec, lhs, s, ctx, g))) \<Longrightarrow>
     (case parse_binary_rhs D expr_prec lhs s ctx g of (n, r, _) \<Rightarrow> length r \<le> length s)"
  "parse_unary_parse_args_parse_binary_rhs_parse_internal_dom (Inr (Inr (D, s, ctx, g))) \<Longrightarrow>
     (case parse_internal D s ctx g of
        (n, r, _) \<Rightarrow> length r \<le> length s \<and> (n \<noteq> None \<longrightarrow> length r < length s))"
proof (induct rule: parse_unary_parse_args_parse_binary_rhs_parse_internal.pinduct)
  case (1 D s ctx g)
  define s0 where "s0 = skip_spaces s"
  have s0: "length s0 \<le> length s" by (simp add: s0_def length_skip_spaces)
  show ?case
  proof (cases "peek s0 = CHR ''-''")
    case True
    have lt: "length (tl s0) < length s" using tl_peek_less[OF True] s0 by simp
    have ih: "case parse_unary D (tl s0) ctx g of (n, r, _) \<Rightarrow> length r \<le> length (tl s0)"
      using 1(2)[OF s0_def True] by (auto split: prod.splits)
    show ?thesis using ih lt True 1(1)
      by (auto simp: parse_unary.psimps Let_def s0_def[symmetric] create_number_node_def
            create_operator_node_def split: prod.splits option.splits)
  next
    case minus: False
    show ?thesis
    proof (cases "peek s0 = CHR ''(''")
      case True
      have lt: "length (tl s0) < length s" using tl_peek_less[OF True] s0 by simp
      have ih: "case parse_internal D (tl s0) ctx g of (n, r, _) \<Rightarrow> length r \<le> length (tl s0)"
        using 1(3)[OF s0_def minus True] by (auto split: prod.splits)
      have tl: "\<And>r::string. length (tl r) \<le> length r" by simp
      show ?thesis using ih lt True minus 1(1)
        by (auto simp: parse_unary.psimps Let_def s0_def[symmetric] split: prod.splits option.splits
              intro: le_less_trans[OF tl] le_trans[OF tl])
    next
      case paren: False
      obtain v found s1 where pn: "parse_number D s0 = (v, found, s1)" by (metis prod_cases3)
      from length_parse_number[OF pn] s0
      have l1: "length s1 \<le> length s" "found \<Longrightarrow> length s1 < length s" by auto
      show ?thesis
      proof (cases found)
        case True
        then show ?thesis using l1 pn minus paren 1(1)
          by (auto simp: parse_unary.psimps Let_def s0_def[symmetric] create_number_node_def)
      next
        case nf: False
        show ?thesis
        proof (cases "is_alpha (peek s1)")
          case False
          then show ?thesis using l1 pn minus paren nf 1(1)
            by (auto simp: parse_unary.psimps Let_def s0_def[symmetric])
        next
          case al: True
          obtain nm s2 where ic: "ident_chars s1 = (nm, s2)" by (metis prod.exhaust)
          from ident_chars_alpha[OF al ic] l1 have l2: "length s2 < length s" by simp
          define look where "look = skip_spaces s2"
          have l3: "length look < length s" using l2 length_skip_spaces[of s2] by (simp add: look_def)
          show ?thesis
          proof (cases "peek look = CHR ''(''")
            case False
            then show ?thesis using l2 pn minus paren nf al ic 1(1)
              by (auto simp: parse_unary.psimps Let_def s0_def[symmetric] look_def[symmetric]
                    create_variable_node_def)
          next
            case call: True
            define s3 where "s3 = skip_spaces (tl look)"
            have l4: "length s3 < length s"
              using l3 length_skip_spaces[of "tl look"] by (simp add: s3_def)
            show ?thesis
            proof (cases "peek s3 = CHR '')''")
              case True
              then show ?thesis using l4 pn minus paren nf al ic call 1(1)
                by (auto simp: parse_unary.psimps Let_def s0_def[symmetric] look_def[symmetric]
                      s3_def[symmetric] create_function_node_def)
            next
              case False
              have ih: "case parse_args D [] s3 ctx g of (n, r, _) \<Rightarrow> length r \<le> length s3"
                using 1(4)[OF s0_def minus paren pn[symmetric] refl _ al ic[symmetric] look_def call s3_def False] nf
                by simp
              have tl: "\<And>r::string. length (tl r) \<le> length r" by simp
              show ?thesis using ih l4 pn minus paren nf al ic call False 1(1)
                by (auto simp: parse_unary.psimps Let_def s0_def[symmetric] look_def[symmetric]
                      s3_def[symmetric] create_function_node_def split: prod.splits option.splits
                      intro: le_less_trans[OF tl] le_trans[OF tl])
            qed
          qed
        qed
      qed
    qed
  qed
next
  case (2 D args s ctx g)
  obtain n1 s1 g1 where u: "parse_internal D s ctx g = (n1, s1, g1)" by (metis prod_cases3)
  from 2(2) u have l1: "length s1 \<le> length s" by auto
  show ?case
  proof (cases n1)
    case None
    then show ?thesis using u l1 2(1) by (simp add: parse_args.psimps)
  next
    case (Some arg)
    define s2 where "s2 = skip_spaces s1"
    have l2: "length s2 \<le> length s" using l1 length_skip_spaces[of s1] by (simp add: s2_def)
    show ?thesis
    proof (cases "EXPRLIB_ERROR g1 = EXPRLIB_SUCCESS \<and> peek s2 = CHR '',''")
      case False
      then show ?thesis using u l1 l2 Some 2(1)
        by (auto simp: parse_args.psimps Let_def s2_def[symmetric])
    next
      case True
      have "case parse_args D (args @ [arg]) (skip_spaces (tl s2)) ctx g1 of
              (n, r, _) \<Rightarrow> length r \<le> length (skip_spaces (tl s2))"
        using 2(3)[OF u[symmetric] Some refl _ s2_def] True by simp
      moreover have "length (skip_spaces (tl s2)) \<le> length s"
        using l2 length_skip_spaces[of "tl s2"] by simp
      ultimately show ?thesis using u Some True 2(1)
        by (auto simp: parse_args.psimps Let_def s2_def[symmetric] split: prod.splits)
    qed
  qed
next
  case (3 D expr_prec lhs s ctx g)
  let ?s0 = "skip_spaces s"
  let ?op = "peek ?s0"
  let ?tok_prec = "get_precedence ?op"
  have s0: "length ?s0 \<le> length s" by (simp add: length_skip_spaces)
  show ?case
  proof (cases "?tok_prec < expr_prec")
    case True
    then show ?thesis using s0 3(1)
      by (simp add: parse_binary_rhs.psimps Let_def)
  next
    case ge: False
    obtain n1 s1 g1 where u: "parse_unary D (tl ?s0) ctx g = (n1, s1, g1)" by (metis prod_cases3)
    have "case parse_unary D (tl ?s0) ctx g of (n, r, _) \<Rightarrow> length r \<le> length (tl ?s0)"
      using 3(2)[OF refl refl refl ge] by (auto split: prod.splits)
    with u s0 have l1: "length s1 \<le> length s" by (simp add: le_diff_conv)
    show ?thesis
    proof (cases n1)
      case None
      then show ?thesis using u l1 ge 3(1)
        by (simp add: parse_binary_rhs.psimps Let_def)
    next
      case (Some rhs)
      let ?s2 = "skip_spaces s1"
      let ?next_prec = "get_precedence (peek ?s2)"
      let ?inner = "if ?tok_prec < ?next_prec \<or> (?tok_prec = ?next_prec \<and> is_right_associative ?op)
         then parse_binary_rhs D (?tok_prec + 1) rhs ?s2 ctx g1 else (Some rhs, ?s2, g1)"
      have l2: "length ?s2 \<le> length s" using l1 length_skip_spaces[of s1] by simp
      obtain n3 s3 g3 where i: "?inner = (n3, s3, g3)" by (metis prod_cases3)
      have l3: "length s3 \<le> length s"
      proof (cases "?tok_prec < ?next_prec \<or> (?tok_prec = ?next_prec \<and> is_right_associative ?op)")
        case True
        have "case parse_binary_rhs D (?tok_prec + 1) rhs ?s2 ctx g1 of
                (n, r, _) \<Rightarrow> length r \<le> length ?s2"
          using 3(3)[OF refl refl refl ge u[symmetric] Some refl refl refl True] .
        with i True l2 show ?thesis by (simp split: if_splits)
      next
        case False
        with i l2 show ?thesis by (simp split: if_splits)
      qed
      have eq: "parse_binary_rhs D expr_prec lhs s ctx g =
        (case (n3, s3, g3) of
           (None, s3, g3) \<Rightarrow> (None, s3, g3)
         | (Some rhs', s3, g3) \<Rightarrow>
             (case combine D ?op lhs rhs' g3 of
                (None, g4) \<Rightarrow> (None, s3, g4)
              | (Some lhs', g4) \<Rightarrow> parse_binary_rhs D expr_prec lhs' s3 ctx g4))"
        unfolding i[symmetric] using ge u Some
        by (simp add: parse_binary_rhs.psimps[OF 3(1)] Let_def split del: if_split cong: if_cong)
      show ?thesis
      proof (cases n3)
        case None
        then show ?thesis using l3 by (simp add: eq)
      next
        case rhs': (Some rhs')
        obtain n4 g4 where c: "combine D ?op lhs rhs' g3 = (n4, g4)" by (metis prod.exhaust)
        show ?thesis
        proof (cases n4)
          case None
          then show ?thesis using l3 rhs' c by (simp add: eq)
        next
          case lhs': (Some lhs')
          have "case parse_binary_rhs D expr_prec lhs' s3 ctx g4 of
                  (n, r, _) \<Rightarrow> length r \<le> length s3"
            using 3(4)[OF refl refl refl ge u[symmetric] Some refl refl refl
                i[symmetric] rhs' refl c[symmetric] lhs'] .
          then show ?thesis using l3 rhs' c lhs'
            by (auto simp: eq split: prod.splits)
        qed
      qed
    qed
  qed
next
  case (4 D s ctx g)
  obtain n1 s1 g1 where u: "parse_unary D s ctx g = (n1, s1, g1)" by (metis prod_cases3)
  from 4(2) u have l1: "length s1 \<le> length s" "n1 \<noteq> None \<Longrightarrow> length s1 < length s" by auto
  show ?case
  proof (cases n1)
    case None
    then show ?thesis using u l1 4(1) by (simp add: parse_internal.psimps)
  next
    case (Some l)
    show ?thesis
    proof (cases "EXPRLIB_ERROR g1 = EXPRLIB_SUCCESS")
      case False
      then show ?thesis using u l1 Some 4(1) by (simp add: parse_internal.psimps)
    next
      case True
      have "case parse_binary_rhs D 0 l s1 ctx g1 of (n, r, _) \<Rightarrow> length r \<le> length s1"
        using 4(3)[OF u[symmetric] Some refl] True by simp
      then show ?thesis using u l1 Some True 4(1)
        by (auto simp: parse_internal.psimps split: prod.splits)
    qed
  qed
qed



lemma unary_shorter:
  "parse_unary_parse_args_parse_binary_rhs_parse_internal_dom (Inl (Inl (D, s, ctx, g))) \<Longrightarrow>
   (Some n, r, g') = parse_unary D s ctx g \<Longrightarrow> length r < length s"
  using parser_length(1)[of D s ctx g] by (auto split: prod.splits)

lemma internal_shorter:
  "parse_unary_parse_args_parse_binary_rhs_parse_internal_dom (Inr (Inr (D, s, ctx, g))) \<Longrightarrow>
   (Some n, r, g') = parse_internal D s ctx g \<Longrightarrow> length r < length s"
  using parser_length(4)[of D s ctx g] by (auto split: prod.splits)

lemma binary_not_longer:
  "parse_unary_parse_args_parse_binary_rhs_parse_internal_dom (Inr (Inl (D, p, l, s, ctx, g))) \<Longrightarrow>
   (n, r, g') = parse_binary_rhs D p l s ctx g \<Longrightarrow> length r \<le> length s"
  using parser_length(3)[of D p l s ctx g] by (auto split: prod.splits)

termination parse_unary
proof (relation "inv_image (less_than <*lex*> less_than)
     (\<lambda>x. case x of
         Inl (Inl (D, s, c, g)) \<Rightarrow> (length s, 0::nat)
       | Inl (Inr (D, a, s, c, g)) \<Rightarrow> (length s, 3)
       | Inr (Inl (D, p, l, s, c, g)) \<Rightarrow> (length s, 1)
       | Inr (Inr (D, s, c, g)) \<Rightarrow> (length s, 2))", goal_cases)
  case 1
  show ?case by (intro wf_inv_image wf_lex_prod wf_less_than)
next
  case (2 D s ctx g x)
  then show ?case using tl_peek_less[of x "CHR ''-''"] length_skip_spaces[of s] by simp
next
  case (3 D s ctx g x)
  then show ?case using tl_peek_less[of x "CHR ''(''"] length_skip_spaces[of s] by simp
next
  case (4 D s ctx g x xa y xb ya xc yb xd xe)
  from 4 have pn: "parse_number D (skip_spaces s) = (xa, xb, ya)" by simp
  from 4 have ic: "ident_chars ya = (xc, yb)" by simp
  have "length ya \<le> length s" using length_parse_number[OF pn] length_skip_spaces[of s] by simp
  moreover have "length yb < length ya" using ident_chars_alpha[OF _ ic] 4 by simp
  moreover have "length xe \<le> length yb"
    using 4 length_skip_spaces[of yb] length_skip_spaces[of "tl (skip_spaces yb)"] by simp
  ultimately show ?case by simp
next
  case (5 D args s ctx g)
  show ?case by simp
next
  case (6 D args s ctx g x y x2 xa ya xb)
  then have "length xa < length s" using internal_shorter[of D s ctx g x2 xa ya] by simp
  moreover have "length (skip_spaces (tl xb)) \<le> length xa"
    using 6 length_skip_spaces[of xa] length_skip_spaces[of "tl (skip_spaces xa)"] by simp
  ultimately show ?case by simp
next
  case (7 D expr_prec lhs s ctx g x xa xb)
  then show ?case using length_skip_spaces[of s] by auto
next
  case (8 D expr_prec lhs s ctx g x xa xb xc y x2 xd ya xe xf)
  then have "length xd < length (tl x)" using unary_shorter[of D "tl x" ctx g x2 xd ya] by simp
  then show ?case using 8 length_skip_spaces[of s] length_skip_spaces[of xd] by simp
next
  case (10 D s ctx g)
  show ?case by simp
next
  case (9 D expr_prec lhs s ctx g x xa xb xc y x2 xd ya xe xf xg yb x2a xh yc xi yd x2b)
  then have a: "length xd < length (tl x)" using unary_shorter[of D "tl x" ctx g x2 xd ya] by simp
  have b: "length xe \<le> length xd" using 9 length_skip_spaces[of xd] by simp
  have "length xh \<le> length xe"
  proof (cases "xb < xf \<or> xb = xf \<and> is_right_associative xa")
    case True
    from 9(10) True have "(xg, yb) = parse_binary_rhs D (xb + 1) x2 xe ctx ya" by simp
    with 9(12) have "(xg, xh, yc) = parse_binary_rhs D (xb + 1) x2 xe ctx ya" by simp
    from binary_not_longer[OF 9(15)[OF True] this] show ?thesis .
  next
    case False
    from 9(10) False have "(xg, yb) = (Some x2, xe, ya)" by simp
    with 9(12) show ?thesis by simp
  qed
  with a b show ?case using 9 length_skip_spaces[of s] by simp
next
  case (11 D s ctx g x y x2 xa ya)
  then show ?case using unary_shorter[of D s ctx g x2 xa ya] by simp
qed


declare parse_unary.simps [simp del] parse_args.simps [simp del]
  parse_binary_rhs.simps [simp del] parse_internal.simps [simp del]


section \<open>Evaluating concrete texts\<close>

lemmas parser_simps =
  parse_unary.simps parse_args.simps parse_binary_rhs.simps parse_internal.simps

lemmas scan_defs =
  Let_def peek_def parse_number_def is_digit_def is_alpha_def is_ident_char_def digit_val_def
  get_precedence_def is_right_associative_def combine_def folded_def create_number_node_def
  create_operator_node_def create_variable_node_def create_function_node_def
  is_defined_variable_def

lemma init_eq:
  "exprlib_init D start =
     \<lparr>EXPRLIB_ERROR = EXPRLIB_SUCCESS,
      g_functions = map (\<lambda>(nm, ar, f). \<lparr>name = nm, arity = ar, fn = f\<rparr>) (builtin_functions D),
      g_constants = builtin_constants D, invoked = []\<rparr>"
  by (simp add: exprlib_init_def exprlib_register_builtins_def builtin_functions_def
        builtin_constants_def exprlib_register_function_def exprlib_register_constant_def start_def)

lemma find_function_present:
  "(\<exists>e \<in> set fs. name e = n) \<longleftrightarrow> find_function fs n \<noteq> None"
  by (induction fs) auto

section \<open>Numbers and identifiers in the text\<close>

lemma skip_spaces_append_spaces: "all_spaces sp \<Longrightarrow> skip_spaces (sp @ s) = skip_spaces s"
  by (induction sp) (auto simp: all_spaces_def)

lemma skip_spaces_id: "peek s \<noteq> CHR '' '' \<Longrightarrow> skip_spaces s = s"
  by (cases s) (auto simp: peek_def)

lemma peek_skip_spaces: "peek (skip_spaces s) \<noteq> CHR '' ''"
  by (induction s) (auto simp: peek_def)

lemma skip_spaces_idem: "skip_spaces (skip_spaces s) = skip_spaces s"
  by (simp add: skip_spaces_id peek_skip_spaces)

lemma skip_spaces_append: "skip_spaces s \<noteq> [] \<Longrightarrow> skip_spaces (s @ t) = skip_spaces s @ t"
  by (induction s) auto

lemma peek_append: "s \<noteq> [] \<Longrightarrow> peek (s @ t) = peek s"
  by (cases s) (auto simp: peek_def)

lemma int_digits_append:
  "int_digits D v f s = (v', f', q) \<Longrightarrow> (q = [] \<longrightarrow> \<not> is_digit (peek r)) \<Longrightarrow>
   int_digits D v f (s @ r) = (v', f', q @ r)"
proof (induction s arbitrary: v f)
  case Nil
  then show ?case by (cases r) (auto simp: peek_def)
next
  case (Cons c s)
  then show ?case by (auto split: if_splits)
qed

lemma frac_digits_append:
  "frac_digits D v fr s = (v', q) \<Longrightarrow> (q = [] \<longrightarrow> \<not> is_digit (peek r)) \<Longrightarrow>
   frac_digits D v fr (s @ r) = (v', q @ r)"
proof (induction s arbitrary: v fr)
  case Nil
  then show ?case by (cases r) (auto simp: peek_def)
next
  case (Cons c s)
  then show ?case by (auto split: if_splits)
qed

lemma ident_chars_append:
  "ident_chars s = (nm, q) \<Longrightarrow> (q = [] \<longrightarrow> \<not> is_ident_char (peek r)) \<Longrightarrow>
   ident_chars (s @ r) = (nm, q @ r)"
proof (induction s arbitrary: nm)
  case Nil
  then show ?case by (cases r) (auto simp: peek_def)
next
  case (Cons c s)
  then show ?case by (auto split: if_splits prod.splits)
qed

lemma int_digits_found: "int_digits D v False s = (v', True, q) \<Longrightarrow> is_digit (peek s)"
  by (cases s) (auto simp: peek_def split: if_splits)

text \<open>
  A text that \<^verbatim>\<open>parse_number\<close> reads to its end as a number, followed by a text that
  does not continue the number.
\<close>

lemma parse_number_append:
  assumes "parse_number D a = (v, True, [])" and "\<not> is_digit (peek r)" and "peek r \<noteq> CHR ''.''"
  shows "parse_number D (a @ r) = (v, True, r)"
    and "is_digit (peek (skip_spaces a))" and "skip_spaces (a @ r) = skip_spaces a @ r"
proof -
  obtain v1 f1 s1 where i: "int_digits D (d_of_int D 0) False (skip_spaces a) = (v1, f1, s1)"
    by (metis prod_cases3)
  from assms(1) i have f1: "f1" by (auto simp: parse_number_def split: if_splits prod.splits)
  with i show d: "is_digit (peek (skip_spaces a))" by (auto dest: int_digits_found)
  then have ne: "skip_spaces a \<noteq> []" by (auto simp: peek_def is_digit_def)
  then show app: "skip_spaces (a @ r) = skip_spaces a @ r" by (rule skip_spaces_append)
  show "parse_number D (a @ r) = (v, True, r)"
  proof (cases "peek s1 = CHR ''.''")
    case True
    then have s1: "s1 \<noteq> []" by (auto simp: peek_def)
    obtain v2 s2 where fr: "frac_digits D v1 (d_tenth D) (tl s1) = (v2, s2)" by (metis prod.exhaust)
    from assms(1) i True fr have e: "v2 = v" "s2 = []" by (auto simp: parse_number_def)
    have i': "int_digits D (d_of_int D 0) False (skip_spaces a @ r) = (v1, f1, s1 @ r)"
      using int_digits_append[OF i, of r] s1 by simp
    have fr': "frac_digits D v1 (d_tenth D) (tl s1 @ r) = (v2, s2 @ r)"
      using frac_digits_append[OF fr, of r] assms(2) by simp
    show ?thesis using i' fr' e f1 s1 True
      by (simp add: parse_number_def app peek_append)
  next
    case False
    from assms(1) i False have e: "v1 = v" "s1 = []" by (auto simp: parse_number_def)
    have i': "int_digits D (d_of_int D 0) False (skip_spaces a @ r) = (v1, f1, r)"
      using int_digits_append[OF i, of r] e assms(2) by simp
    show ?thesis using i' e f1 assms(3) by (simp add: parse_number_def app)
  qed
qed

lemma parse_number_skip: "parse_number D (skip_spaces s) = parse_number D s"
  by (simp add: parse_number_def skip_spaces_idem)

lemma is_digit_peek_simps: "is_digit c \<Longrightarrow> c \<noteq> CHR ''-'' \<and> c \<noteq> CHR ''(''"
  by (auto simp: is_digit_def)

lemma parse_unary_literal:
  assumes "parse_number D a = (v, True, [])" and "\<not> is_digit (peek r)" and "peek r \<noteq> CHR ''.''"
  shows "parse_unary D (a @ r) ctx g = (Some (Number v), r, g\<lparr>EXPRLIB_ERROR := EXPRLIB_SUCCESS\<rparr>)"
proof -
  note pn = parse_number_append[OF assms]
  have p: "peek (skip_spaces (a @ r)) = peek (skip_spaces a)"
    using pn(2,3) by (auto simp: peek_def is_digit_def split: list.splits)
  have "parse_number D (skip_spaces (a @ r)) = (v, True, r)"
    using pn(1) by (simp add: parse_number_skip)
  then show ?thesis using p is_digit_peek_simps[OF pn(2)]
    by (simp add: parse_unary.simps Let_def create_number_node_def)
qed


lemma parse_binary_rhs_stop:
  "get_precedence (peek (skip_spaces s)) < p \<Longrightarrow>
   parse_binary_rhs D p lhs s ctx g = (Some lhs, skip_spaces s, g)"
  by (simp add: parse_binary_rhs.simps Let_def)

lemma operator_chars:
  "0 \<le> get_precedence op \<Longrightarrow> op \<noteq> CHR '' '' \<and> \<not> is_digit op \<and> op \<noteq> CHR ''.''"
  by (auto simp: get_precedence_def is_digit_def split: if_splits)

lemma peek_spaces_then: "all_spaces sp \<Longrightarrow> c \<noteq> CHR '' '' \<Longrightarrow>
  peek (sp @ c # s) = (if sp = [] then c else CHR '' '')"
  by (cases sp) (auto simp: peek_def all_spaces_def)

lemma parse_two_literals:
  assumes a: "parse_number D a = (va, True, [])" and b: "parse_number D b = (vb, True, [])"
    and sp: "all_spaces sp" and op: "0 \<le> get_precedence op"
  shows "exprlib_parse D (a @ sp @ op # b) ctx g =
           combine D op (Number va) (Number vb) (g\<lparr>EXPRLIB_ERROR := EXPRLIB_SUCCESS\<rparr>)"
proof -
  let ?g = "g\<lparr>EXPRLIB_ERROR := EXPRLIB_SUCCESS\<rparr>"
  note oc = operator_chars[OF op]
  have pk: "peek (sp @ op # b) = (if sp = [] then op else CHR '' '')"
    using peek_spaces_then[OF sp] oc by simp
  have r1: "\<not> is_digit (peek (sp @ op # b))" "peek (sp @ op # b) \<noteq> CHR ''.''"
    using pk oc by (auto simp: is_digit_def)
  have u1: "parse_unary D (a @ sp @ op # b) ctx ?g = (Some (Number va), sp @ op # b, ?g)"
    using parse_unary_literal[OF a r1, of ctx ?g] by simp
  have u2: "parse_unary D b ctx ?g = (Some (Number vb), [], ?g)"
    using parse_unary_literal[OF b, of "[]" ctx ?g] by (simp add: peek_def is_digit_def)
  have s0: "skip_spaces (sp @ op # b) = op # b"
    using oc by (simp add: skip_spaces_append_spaces[OF sp])
  obtain n4 g4 where c: "combine D op (Number va) (Number vb) ?g = (n4, g4)" by (metis prod.exhaust)
  have nul: "get_precedence (peek []) = - 1" by (simp add: peek_def get_precedence_def)
  have "parse_binary_rhs D 0 (Number va) (sp @ op # b) ctx ?g = (n4, [], g4)"
  proof (cases n4)
    case None
    then show ?thesis using s0 op u2 c nul
      by (simp add: parse_binary_rhs.simps[of D 0 "Number va" "sp @ op # b"] Let_def peek_def)
  next
    case (Some l)
    have "parse_binary_rhs D 0 l [] ctx g4 = (Some l, [], g4)"
      using parse_binary_rhs_stop[of "[]" 0 D l ctx g4] nul by simp
    then show ?thesis using s0 op u2 c nul Some
      by (simp add: parse_binary_rhs.simps[of D 0 "Number va" "sp @ op # b"] Let_def peek_def)
  qed
  then show ?thesis using u1 c
    by (simp add: exprlib_parse_def parse_internal.simps)
qed

lemma ident_chars_all:
  "\<forall>c \<in> set z. is_ident_char c \<Longrightarrow> \<not> is_ident_char (peek r) \<Longrightarrow> ident_chars (z @ r) = (z, r)"
proof (induction z)
  case Nil
  then show ?case by (cases r) (auto simp: peek_def)
next
  case (Cons c z)
  then show ?case by simp
qed

lemma alpha_chars:
  "is_alpha c \<Longrightarrow> c \<noteq> CHR '' '' \<and> c \<noteq> CHR ''-'' \<and> c \<noteq> CHR ''('' \<and> c \<noteq> CHR ''.'' \<and> \<not> is_digit c"
  by (auto simp: is_alpha_def is_digit_def less_eq_char_def)

text \<open>What \<^verbatim>\<open>parse_unary\<close> does at an identifier that no parenthesis follows.\<close>

lemma parse_unary_identifier:
  assumes z: "is_identifier z" and sp: "all_spaces sp"
    and r: "\<not> is_ident_char (peek r)" and nc: "peek (skip_spaces r) \<noteq> CHR ''(''"
  shows "parse_unary D (sp @ z @ r) ctx g =
           (if is_defined_variable z ctx g
            then (Some (Variable z), r, g\<lparr>EXPRLIB_ERROR := EXPRLIB_SUCCESS\<rparr>)
            else (None, r, g\<lparr>EXPRLIB_ERROR := EXPRLIB_ERROR_UNDEFINED_VARIABLE\<rparr>))"
proof -
  from z obtain c z' where zc: "z = c # z'" and al: "is_alpha c" and ic: "\<forall>c \<in> set z. is_ident_char c"
    by (cases z) (auto simp: is_identifier_def)
  note ac = alpha_chars[OF al]
  have s0: "skip_spaces (sp @ z @ r) = z @ r"
    using ac by (simp add: skip_spaces_append_spaces[OF sp] zc)
  have pk: "peek (z @ r) = c" by (simp add: zc peek_def)
  have pn: "parse_number D (z @ r) = (d_of_int D 0, False, z @ r)"
    using ac by (simp add: parse_number_def zc peek_def)
  have id: "ident_chars (z @ r) = (z, r)" by (rule ident_chars_all[OF ic r])
  show ?thesis using s0 pk ac al pn id nc
    by (simp add: parse_unary.simps[of D "sp @ z @ r"] Let_def create_variable_node_def)
qed





section \<open>Precedence and associativity\<close>

text \<open>The precedence table of \<^verbatim>\<open>get_precedence\<close>.\<close>

lemma precedence_table:
  "get_precedence (CHR ''+'') = 10" "get_precedence (CHR ''-'') = 10"
  "get_precedence (CHR ''*'') = 20" "get_precedence (CHR ''/'') = 20"
  "get_precedence (CHR ''^'') = 30"
  by (simp_all add: get_precedence_def)

text \<open>
  The precedence of the operators is honoured: the product binds tighter than the sum.
\<close>

lemma parse_sum_product:
  "exprlib_parse exact ''2 + 3 * 4'' [] (exprlib_init exact start) =
     (Some (Number 14), exprlib_init exact start)"
  by (simp add: init_eq exprlib_parse_def parser_simps scan_defs exact_def)

text \<open>Chains of \<^verbatim>\<open>-\<close> and of \<^verbatim>\<open>/\<close> are grouped from the left.\<close>

lemma left_associative_chains:
  "exprlib_parse exact ''2 - 3 - 4'' [] (exprlib_init exact start) =
     (Some (Number (- 5)), exprlib_init exact start)"
  "exprlib_parse exact ''8 / 4 / 2'' [] (exprlib_init exact start) =
     (Some (Number 1), exprlib_init exact start)"
  by (simp_all add: init_eq exprlib_parse_def parser_simps scan_defs exact_def)

text \<open>
  A chain of \<^verbatim>\<open>^\<close> is grouped from the left, whatever the arithmetic: when the next operator
  is \<^verbatim>\<open>^\<close> again, \<^verbatim>\<open>parse_binary_rhs\<close> calls itself with \<^verbatim>\<open>tok_prec + 1\<close>, which is above
  the precedence of \<^verbatim>\<open>^\<close>, so the inner call returns at once.
\<close>

lemma parse_power_chain_any:
  "fst (exprlib_parse D ''2 ^ 3 ^ 2'' ctx g) =
     Some (Number
       (d_pow D
          (d_pow D (d_add D (d_mul D (d_of_int D 0) (d_of_int D 10)) (d_of_int D 2))
                   (d_add D (d_mul D (d_of_int D 0) (d_of_int D 10)) (d_of_int D 3)))
          (d_add D (d_mul D (d_of_int D 0) (d_of_int D 10)) (d_of_int D 2))))"
  by (simp add: exprlib_parse_def parser_simps scan_defs)

text \<open>
  Claim C1. The library is to evaluate every arithmetic text to its mathematical value, with
  \<^verbatim>\<open>^\<close> associating to the right, so that \<^verbatim>\<open>2 ^ 3 ^ 2\<close> is \<open>2 ^ 9 = 512\<close>. The code parses
  this text to the number \<open>(2 ^ 3) ^ 2 = 64\<close>, and evaluating the tree returns 64.
\<close>

theorem power_chain_yields_64:
  "exprlib_parse exact ''2 ^ 3 ^ 2'' [] (exprlib_init exact start) =
     (Some (Number 64), exprlib_init exact start) \<and>
   exprlib_evaluate exact (Some (Number 64)) [] (exprlib_init exact start) =
     Some (64, exprlib_init exact start)"
  by (simp add: init_eq exprlib_parse_def exprlib_evaluate_def parser_simps scan_defs exact_def
        real_pow_def)

section \<open>Failures while a call is evaluated\<close>

text \<open>
  Whatever the arguments leave in \<^verbatim>\<open>EXPRLIB_ERROR\<close>, a call whose arity test passes invokes
  the native function on the values the arguments returned.
\<close>

lemma call_ignores_failed_arguments:
  assumes "find_function (g_functions g) nm = Some f"
    and "arity f = - 1 \<or> arity f = int (length args)"
    and "evaluate_args D args ctx g = Some (argv, g1)"
    and "fn f argv (EXPRLIB_ERROR g1) = Some (v, e)"
  shows "evaluate_node D (FunctionCall nm args) ctx g =
           Some (v, g1\<lparr>EXPRLIB_ERROR := e, invoked := invoked g1 @ [(name f, argv)]\<rparr>)"
  using assms by auto

text \<open>
  Claim C2. When an argument of a call fails, nothing more is to be done for the call and the
  native function is not to be invoked. In the code the loop over the arguments does not
  look at \<^verbatim>\<open>EXPRLIB_ERROR\<close>: with \<open>z = 0\<close> the argument of \<^verbatim>\<open>sin(1 / z)\<close> fails with a division
  by zero and \<^verbatim>\<open>sin\<close> is invoked all the same, on the 0.0 the failed argument returned.
\<close>

theorem native_invoked_after_failed_argument:
  "exprlib_parse exact ''sin(1 / z)'' [(''z'', 0)] (exprlib_init exact start) =
     (Some (FunctionCall ''sin'' [Operator (CHR ''/'') (Number 1) (Variable ''z'')]),
      exprlib_init exact start) \<and>
   exprlib_evaluate exact
     (Some (FunctionCall ''sin'' [Operator (CHR ''/'') (Number 1) (Variable ''z'')]))
     [(''z'', 0)] (exprlib_init exact start) =
     Some (0, (exprlib_init exact start)
                \<lparr>EXPRLIB_ERROR := EXPRLIB_ERROR_DIVISION_BY_ZERO, invoked := [(''sin'', [0])]\<rparr>)"
  by (simp add: init_eq exprlib_parse_def exprlib_evaluate_def parser_simps scan_defs exact_def
        builtin_functions_def builtin_constants_def fn_sin_def libm1_def real_libm_def)

text \<open>
  Claim C3. The error code a call reports is to be that of the first failure. With \<open>z = 0\<close>
  the first argument of \<^verbatim>\<open>max(1 / z, factorial(0 - 1))\<close> fails with a division by zero; the
  second argument is evaluated nevertheless, \<^verbatim>\<open>factorial\<close> stores \<^verbatim>\<open>EXPRLIB_ERROR_INVALID_ARGUMENT\<close>
  over it, and that is the code \<^verbatim>\<open>exprlib_evaluate\<close> reports.
\<close>

theorem later_failure_overwrites_first:
  "exprlib_parse exact ''max(1 / z, factorial(0 - 1))'' [(''z'', 0)] (exprlib_init exact start) =
     (Some (FunctionCall ''max''
        [Operator (CHR ''/'') (Number 1) (Variable ''z''), FunctionCall ''factorial'' [Number (- 1)]]),
      exprlib_init exact start) \<and>
   exprlib_evaluate exact (Some (Operator (CHR ''/'') (Number 1) (Variable ''z'')))
     [(''z'', 0)] (exprlib_init exact start) =
     Some (0, (exprlib_init exact start)\<lparr>EXPRLIB_ERROR := EXPRLIB_ERROR_DIVISION_BY_ZERO\<rparr>) \<and>
   exprlib_evaluate exact
     (Some (FunctionCall ''max''
        [Operator (CHR ''/'') (Number 1) (Variable ''z''), FunctionCall ''factorial'' [Number (- 1)]]))
     [(''z'', 0)] (exprlib_init exact start) =
     Some (0, (exprlib_init exact start)
                \<lparr>EXPRLIB_ERROR := EXPRLIB_ERROR_INVALID_ARGUMENT,
                 invoked := [(''factorial'', [- 1]), (''max'', [0, 0])]\<rparr>)"
  by (simp add: init_eq exprlib_parse_def exprlib_evaluate_def parser_simps scan_defs exact_def
        builtin_functions_def builtin_constants_def fn_max_def factorial_def)

text \<open>
  Claim C8. A call of a registered function of fixed arity with another number of arguments
  fails with \<^verbatim>\<open>EXPRLIB_ERROR_SYNTAX\<close>; no argument is evaluated and nothing is invoked, so
  the record of invocations is the one before the call.
\<close>

theorem fixed_arity_mismatch:
  assumes "find_function (g_functions g) nm = Some f"
    and "arity f \<noteq> - 1" and "arity f \<noteq> int (length args)"
  shows "evaluate_node D (FunctionCall nm args) ctx g =
           Some (d_of_int D 0, g\<lparr>EXPRLIB_ERROR := EXPRLIB_ERROR_SYNTAX\<rparr>) \<and>
         exprlib_evaluate D (Some (FunctionCall nm args)) ctx g =
           Some (d_of_int D 0, g\<lparr>EXPRLIB_ERROR := EXPRLIB_ERROR_SYNTAX\<rparr>) \<and>
         invoked (g\<lparr>EXPRLIB_ERROR := EXPRLIB_ERROR_SYNTAX\<rparr>) = invoked g"
  using assms by (simp add: exprlib_evaluate_def)

theorem fixed_arity_mismatch_witness:
  "find_function (g_functions (exprlib_init exact start)) ''pow'' =
     Some \<lparr>name = ''pow'', arity = 2, fn = fn_pow exact\<rparr> \<and>
   exprlib_evaluate exact (Some (FunctionCall ''pow'' [Number 7])) [] (exprlib_init exact start) =
     Some (0, (exprlib_init exact start)\<lparr>EXPRLIB_ERROR := EXPRLIB_ERROR_SYNTAX\<rparr>)"
proof -
  have f: "find_function (g_functions (exprlib_init exact start)) ''pow'' =
             Some \<lparr>name = ''pow'', arity = 2, fn = fn_pow exact\<rparr>"
    by (simp add: init_eq builtin_functions_def)
  have a: "arity \<lparr>name = ''pow'', arity = 2, fn = fn_pow exact\<rparr> \<noteq> - 1" by simp
  have b: "arity \<lparr>name = ''pow'', arity = 2, fn = fn_pow exact\<rparr> \<noteq> int (length [Number (7::real)])"
    by simp
  from fixed_arity_mismatch[OF f a b, of exact "[]"] f show ?thesis
    by (simp add: exact_def)
qed

section \<open>Registering a name twice\<close>

text \<open>
  Claim C6. When the name is already in the registry, \<^verbatim>\<open>exprlib_register_function\<close> returns
  false and changes nothing but \<^verbatim>\<open>EXPRLIB_ERROR\<close>; the code it stores is
  \<^verbatim>\<open>EXPRLIB_ERROR_DUPLICATE_FUNCTION\<close> when the arity and the function pointer of the request are
  acceptable. The entries and their order are the same, \<^verbatim>\<open>find_function\<close> returns the entry
  it returned before, and a call of the name is evaluated as before.
\<close>

theorem duplicate_registration_rejected:
  assumes "find_function (g_functions g) n = Some e" and "n \<noteq> []"
  shows "\<exists>err. exprlib_register_function (Some n) ar f g = (False, g\<lparr>EXPRLIB_ERROR := err\<rparr>) \<and>
           (- 1 \<le> ar \<and> f \<noteq> None \<longrightarrow> err = EXPRLIB_ERROR_DUPLICATE_FUNCTION) \<and>
           g_functions (g\<lparr>EXPRLIB_ERROR := err\<rparr>) = g_functions g \<and>
           find_function (g_functions (g\<lparr>EXPRLIB_ERROR := err\<rparr>)) n = Some e \<and>
           exprlib_evaluate D (Some (FunctionCall n args)) ctx (g\<lparr>EXPRLIB_ERROR := err\<rparr>) =
             exprlib_evaluate D (Some (FunctionCall n args)) ctx g"
proof (cases f)
  case None
  then show ?thesis using assms
    by (intro exI[of _ EXPRLIB_ERROR_NULL]) (simp add: exprlib_register_function_def exprlib_evaluate_def)
next
  case (Some fp)
  from assms(1) have "\<exists>e \<in> set (g_functions g). name e = n"
    by (simp add: find_function_present)
  with Some assms show ?thesis
    by (cases "ar < - 1")
       (auto simp: exprlib_register_function_def exprlib_evaluate_def
          intro: exI[of _ EXPRLIB_ERROR_INVALID_ARGUMENT])
qed

theorem duplicate_registration_rejected_witness:
  "find_function (g_functions (exprlib_init exact start)) ''max'' =
     Some \<lparr>name = ''max'', arity = - 1, fn = fn_max exact\<rparr> \<and>
   exprlib_register_function (Some ''max'') 2 (Some (fn_pow exact)) (exprlib_init exact start) =
     (False, (exprlib_init exact start)\<lparr>EXPRLIB_ERROR := EXPRLIB_ERROR_DUPLICATE_FUNCTION\<rparr>)"
proof -
  have f: "find_function (g_functions (exprlib_init exact start)) ''max'' =
             Some \<lparr>name = ''max'', arity = - 1, fn = fn_max exact\<rparr>"
    by (simp add: init_eq builtin_functions_def)
  have n: "''max'' \<noteq> []" by simp
  from duplicate_registration_rejected[OF f n, of 2 "Some (fn_pow exact)"] f show ?thesis
    by auto
qed

section \<open>Constant folding\<close>

text \<open>
  The operator node that \<^verbatim>\<open>parse_unary\<close> builds for a unary minus is not made by that step
  of \<^verbatim>\<open>parse_binary_rhs\<close>: it stays an operator node over 0 and the operand.
\<close>

lemma unary_minus_not_folded:
  "exprlib_parse exact ''-3'' [] (exprlib_init exact start) =
     (Some (Operator (CHR ''-'') (Number 0) (Number 3)), exprlib_init exact start)"
  by (simp add: init_eq exprlib_parse_def parser_simps scan_defs exact_def)

text \<open>
  Claim C5. When both operands are number nodes, the step of \<^verbatim>\<open>parse_binary_rhs\<close> that joins
  them gives the number node of the value \<^verbatim>\<open>evaluate_node\<close> computes for the operator node
  over the same two numbers, and fails with the error of \<^verbatim>\<open>evaluate_node\<close> when that fails
  (a zero divisor, an unknown operator). Evaluating the number node then gives what
  evaluating the operator node gives. So the text of two numbers around an operator is
  parsed to the number node of that value, or fails with that error.
\<close>

theorem folding_agrees_with_evaluation:
  assumes "EXPRLIB_ERROR g = EXPRLIB_SUCCESS"
  shows "\<exists>v g'. evaluate_node D (Operator op (Number a) (Number b)) ctx g = Some (v, g') \<and>
           combine D op (Number a) (Number b) g =
             (if EXPRLIB_ERROR g' = EXPRLIB_SUCCESS then Some (Number v) else None, g') \<and>
           (EXPRLIB_ERROR g' = EXPRLIB_SUCCESS \<longrightarrow> evaluate_node D (Number v) ctx g = Some (v, g')) \<and>
           (\<forall>ta tb sp. parse_number D ta = (a, True, []) \<and> parse_number D tb = (b, True, []) \<and>
               all_spaces sp \<and> 0 \<le> get_precedence op \<longrightarrow>
               exprlib_parse D (ta @ sp @ op # tb) ctx g =
                 (if EXPRLIB_ERROR g' = EXPRLIB_SUCCESS then Some (Number v) else None, g'))"
proof -
  have g: "g\<lparr>EXPRLIB_ERROR := EXPRLIB_SUCCESS\<rparr> = g" using assms by (cases g) simp
  have "\<exists>v g'. evaluate_node D (Operator op (Number a) (Number b)) ctx g = Some (v, g')"
    using assms by simp
  then obtain v g' where e: "evaluate_node D (Operator op (Number a) (Number b)) ctx g = Some (v, g')"
    by blast
  have c: "combine D op (Number a) (Number b) g =
             (if EXPRLIB_ERROR g' = EXPRLIB_SUCCESS then Some (Number v) else None, g')"
    using assms e by (auto simp: combine_def folded_def create_number_node_def g split: if_splits)
  have p: "exprlib_parse D (ta @ sp @ op # tb) ctx g =
             (if EXPRLIB_ERROR g' = EXPRLIB_SUCCESS then Some (Number v) else None, g')"
    if "parse_number D ta = (a, True, [])" "parse_number D tb = (b, True, [])" "all_spaces sp"
       "0 \<le> get_precedence op" for ta tb sp
    using parse_two_literals[OF that, of ctx g] c by (simp add: g)
  have n: "EXPRLIB_ERROR g' = EXPRLIB_SUCCESS \<longrightarrow> evaluate_node D (Number v) ctx g = Some (v, g')"
    using assms e by (auto split: if_splits)
  show ?thesis using e c p n by (intro exI[of _ v] exI[of _ g']) blast
qed


theorem folding_agrees_with_evaluation_witness:
  "EXPRLIB_ERROR (exprlib_init exact start) = EXPRLIB_SUCCESS \<and>
   evaluate_node exact (Operator (CHR ''*'') (Number 6) (Number 7)) [] (exprlib_init exact start) =
     Some (42, exprlib_init exact start) \<and>
   combine exact (CHR ''*'') (Number 6) (Number 7) (exprlib_init exact start) =
     (Some (Number 42), exprlib_init exact start) \<and>
   exprlib_parse exact ''6 * 7'' [] (exprlib_init exact start) =
     (Some (Number 42), exprlib_init exact start)"
proof -
  have s: "EXPRLIB_ERROR (exprlib_init exact start) = EXPRLIB_SUCCESS" by (simp add: init_eq)
  have e: "evaluate_node exact (Operator (CHR ''*'') (Number 6) (Number 7)) [] (exprlib_init exact start) =
             Some (42, exprlib_init exact start)"
    by (simp add: init_eq exact_def)
  have a: "parse_number exact ''6'' = (6, True, [])"
    by (simp add: parse_number_def peek_def is_digit_def digit_val_def exact_def)
  have b: "parse_number exact '' 7'' = (7, True, [])"
    by (simp add: parse_number_def peek_def is_digit_def digit_val_def exact_def)
  have sp: "all_spaces '' ''" by (simp add: all_spaces_def)
  have op: "0 \<le> get_precedence (CHR ''*'')" by (simp add: get_precedence_def)
  from folding_agrees_with_evaluation[OF s, of exact "CHR ''*''" 6 7 "[]"] e
  have c: "combine exact (CHR ''*'') (Number 6) (Number 7) (exprlib_init exact start) =
             (Some (Number 42), exprlib_init exact start)"
    and p: "\<And>ta tb sp. parse_number exact ta = (6, True, []) \<Longrightarrow> parse_number exact tb = (7, True, []) \<Longrightarrow>
              all_spaces sp \<Longrightarrow> 0 \<le> get_precedence (CHR ''*'') \<Longrightarrow>
              exprlib_parse exact (ta @ sp @ CHR ''*'' # tb) [] (exprlib_init exact start) =
                (Some (Number 42), exprlib_init exact start)"
    using s by auto
  from p[OF a b sp op] s e c show ?thesis by simp
qed

section \<open>Division by zero\<close>





section \<open>The variadic built-ins\<close>





















section \<open>What the parser leaves in the globals\<close>

lemma only_error_eq: "only_error g g' \<Longrightarrow> g' = g\<lparr>EXPRLIB_ERROR := EXPRLIB_ERROR g'\<rparr>"
  by (cases g, cases g') (simp add: only_error_def)

lemma only_error_refl [simp]: "only_error g g"
  by (simp add: only_error_def)

lemma only_error_update [simp]: "only_error g (g'\<lparr>EXPRLIB_ERROR := e\<rparr>) = only_error g g'"
  by (simp add: only_error_def)

lemma only_error_trans: "only_error g g1 \<Longrightarrow> only_error g1 g2 \<Longrightarrow> only_error g g2"
  by (simp add: only_error_def)

lemma folded_reported: "folded v g = (n, g') \<Longrightarrow> reported g n g'"
  by (auto simp: folded_def create_number_node_def reported_def)

lemma combine_reported:
  "combine D op l r g = (n, g') \<Longrightarrow> reported g n g'"
proof (cases "\<exists>a b. l = Number a \<and> r = Number b")
  case True
  then obtain a b where "l = Number a" "r = Number b" by blast
  then show "combine D op l r g = (n, g') \<Longrightarrow> reported g n g'"
    by (auto simp: combine_def reported_def dest!: folded_reported split: if_splits)
next
  case False
  then have "combine D op l r g = (Some (Operator op l r), g\<lparr>EXPRLIB_ERROR := EXPRLIB_SUCCESS\<rparr>)"
    by (cases l; cases r; simp add: combine_def create_operator_node_def)
  then show "combine D op l r g = (n, g') \<Longrightarrow> reported g n g'"
    by (auto simp: reported_def)
qed


lemma parser_reported:
  "case parse_unary D s ctx g of (n, r, g') \<Rightarrow> reported g n g'"
  "case parse_args D args s ctx g of (n, r, g') \<Rightarrow> reported g n g'"
  "case parse_binary_rhs D expr_prec lhs s ctx g of (n, r, g') \<Rightarrow>
     only_error g g' \<and> (n = None \<longrightarrow> EXPRLIB_ERROR g' \<noteq> EXPRLIB_SUCCESS) \<and>
     (EXPRLIB_ERROR g = EXPRLIB_SUCCESS \<longrightarrow> n \<noteq> None \<longrightarrow> EXPRLIB_ERROR g' = EXPRLIB_SUCCESS)"
  "case parse_internal D s ctx g of (n, r, g') \<Rightarrow> reported g n g'"
proof (induct rule: parse_unary_parse_args_parse_binary_rhs_parse_internal.induct)
  case (1 D s ctx g)
  let ?s0 = "skip_spaces s"
  show ?case
  proof (cases "peek ?s0 = CHR ''-''")
    case True
    have ih: "case parse_unary D (tl ?s0) ctx g of (n, r, g') \<Rightarrow> reported g n g'"
      using 1(1)[OF refl True] .
    show ?thesis using ih True
      by (auto simp: parse_unary.simps[of D s] Let_def create_number_node_def
            create_operator_node_def reported_def split: prod.splits option.splits)
  next
    case minus: False
    show ?thesis
    proof (cases "peek ?s0 = CHR ''(''")
      case True
      have ih: "case parse_internal D (tl ?s0) ctx g of (n, r, g') \<Rightarrow> reported g n g'"
        using 1(2)[OF refl minus True] .
      show ?thesis using ih True minus
        by (auto simp: parse_unary.simps[of D s] Let_def reported_def split: prod.splits option.splits)
    next
      case paren: False
      obtain v found s1 where pn: "parse_number D ?s0 = (v, found, s1)" by (metis prod_cases3)
      show ?thesis
      proof (cases found)
        case True
        then show ?thesis using pn minus paren
          by (simp add: parse_unary.simps[of D s] Let_def create_number_node_def reported_def)
      next
        case nf: False
        show ?thesis
        proof (cases "is_alpha (peek s1)")
          case False
          then show ?thesis using pn minus paren nf
            by (simp add: parse_unary.simps[of D s] Let_def reported_def)
        next
          case al: True
          obtain nm s2 where ic: "ident_chars s1 = (nm, s2)" by (metis prod.exhaust)
          let ?look = "skip_spaces s2"
          show ?thesis
          proof (cases "peek ?look = CHR ''(''")
            case False
            then show ?thesis using pn minus paren nf al ic
              by (simp add: parse_unary.simps[of D s] Let_def create_variable_node_def reported_def)
          next
            case call: True
            let ?s3 = "skip_spaces (tl ?look)"
            show ?thesis
            proof (cases "peek ?s3 = CHR '')''")
              case True
              then show ?thesis using pn minus paren nf al ic call
                by (simp add: parse_unary.simps[of D s] Let_def create_function_node_def reported_def)
            next
              case False
              have ih: "case parse_args D [] ?s3 ctx g of (n, r, g') \<Rightarrow> reported g n g'"
                using 1(3)[OF refl minus paren pn[symmetric] refl _ al ic[symmetric] refl call refl False] nf
                by simp
              show ?thesis using ih pn minus paren nf al ic call False
                by (auto simp: parse_unary.simps[of D s] Let_def create_function_node_def reported_def
                      split: prod.splits option.splits)
            qed
          qed
        qed
      qed
    qed
  qed
next
  case (2 D args s ctx g)
  obtain n1 s1 g1 where u: "parse_internal D s ctx g = (n1, s1, g1)" by (metis prod_cases3)
  from 2(1) u have r1: "reported g n1 g1" by simp
  show ?case
  proof (cases n1)
    case None
    then show ?thesis using u r1 by (simp add: parse_args.simps[of D args s] reported_def)
  next
    case (Some arg)
    let ?s2 = "skip_spaces s1"
    show ?thesis
    proof (cases "EXPRLIB_ERROR g1 = EXPRLIB_SUCCESS \<and> peek ?s2 = CHR '',''")
      case False
      then show ?thesis using u r1 Some
        by (auto simp: parse_args.simps[of D args s] Let_def reported_def)
    next
      case True
      have "case parse_args D (args @ [arg]) (skip_spaces (tl ?s2)) ctx g1 of
              (n, r, g') \<Rightarrow> reported g1 n g'"
        using 2(2)[OF u[symmetric] Some refl _ refl] True by simp
      then show ?thesis using u Some True r1
        by (auto simp: parse_args.simps[of D args s] Let_def reported_def split: prod.splits
              intro: only_error_trans)
    qed
  qed
next
  case (3 D expr_prec lhs s ctx g)
  let ?s0 = "skip_spaces s"
  let ?op = "peek ?s0"
  let ?tok_prec = "get_precedence ?op"
  show ?case
  proof (cases "?tok_prec < expr_prec")
    case True
    then show ?thesis by (simp add: parse_binary_rhs.simps[of D expr_prec lhs s] Let_def)
  next
    case ge: False
    obtain n1 s1 g1 where u: "parse_unary D (tl ?s0) ctx g = (n1, s1, g1)" by (metis prod_cases3)
    have r1: "reported g n1 g1" using 3(1)[OF refl refl refl ge] u by simp
    show ?thesis
    proof (cases n1)
      case None
      then show ?thesis using u r1 ge
        by (simp add: parse_binary_rhs.simps[of D expr_prec lhs s] Let_def reported_def)
    next
      case (Some rhs)
      let ?s2 = "skip_spaces s1"
      let ?next_prec = "get_precedence (peek ?s2)"
      let ?inner = "if ?tok_prec < ?next_prec \<or> (?tok_prec = ?next_prec \<and> is_right_associative ?op)
         then parse_binary_rhs D (?tok_prec + 1) rhs ?s2 ctx g1 else (Some rhs, ?s2, g1)"
      obtain n3 s3 g3 where i: "?inner = (n3, s3, g3)" by (metis prod_cases3)
      have r3: "only_error g1 g3 \<and> (n3 = None \<longrightarrow> EXPRLIB_ERROR g3 \<noteq> EXPRLIB_SUCCESS) \<and>
         (EXPRLIB_ERROR g1 = EXPRLIB_SUCCESS \<longrightarrow> n3 \<noteq> None \<longrightarrow> EXPRLIB_ERROR g3 = EXPRLIB_SUCCESS)"
      proof (cases "?tok_prec < ?next_prec \<or> (?tok_prec = ?next_prec \<and> is_right_associative ?op)")
        case True
        have "case parse_binary_rhs D (?tok_prec + 1) rhs ?s2 ctx g1 of (n, r, g') \<Rightarrow>
           only_error g1 g' \<and> (n = None \<longrightarrow> EXPRLIB_ERROR g' \<noteq> EXPRLIB_SUCCESS) \<and>
           (EXPRLIB_ERROR g1 = EXPRLIB_SUCCESS \<longrightarrow> n \<noteq> None \<longrightarrow> EXPRLIB_ERROR g' = EXPRLIB_SUCCESS)"
          using 3(2)[OF refl refl refl ge u[symmetric] Some refl refl refl True] .
        with i True show ?thesis by (simp split: if_splits)
      next
        case False
        with i show ?thesis by (auto split: if_splits)
      qed
      have eq: "parse_binary_rhs D expr_prec lhs s ctx g =
        (case (n3, s3, g3) of
           (None, s3, g3) \<Rightarrow> (None, s3, g3)
         | (Some rhs', s3, g3) \<Rightarrow>
             (case combine D ?op lhs rhs' g3 of
                (None, g4) \<Rightarrow> (None, s3, g4)
              | (Some lhs', g4) \<Rightarrow> parse_binary_rhs D expr_prec lhs' s3 ctx g4))"
        unfolding i[symmetric] using ge u Some
        by (simp add: parse_binary_rhs.simps[of D expr_prec lhs s] Let_def split del: if_split cong: if_cong)
      show ?thesis
      proof (cases n3)
        case None
        then show ?thesis using r1 r3 Some
          by (auto simp: eq reported_def intro: only_error_trans)
      next
        case rhs': (Some rhs')
        obtain n4 g4 where c: "combine D ?op lhs rhs' g3 = (n4, g4)" by (metis prod.exhaust)
        note r4 = combine_reported[OF c]
        show ?thesis
        proof (cases n4)
          case None
          then show ?thesis using r1 r3 r4 Some rhs' c
            by (auto simp: eq reported_def intro: only_error_trans)
        next
          case lhs': (Some lhs')
          have "case parse_binary_rhs D expr_prec lhs' s3 ctx g4 of (n, r, g') \<Rightarrow>
             only_error g4 g' \<and> (n = None \<longrightarrow> EXPRLIB_ERROR g' \<noteq> EXPRLIB_SUCCESS) \<and>
             (EXPRLIB_ERROR g4 = EXPRLIB_SUCCESS \<longrightarrow> n \<noteq> None \<longrightarrow> EXPRLIB_ERROR g' = EXPRLIB_SUCCESS)"
            using 3(3)[OF refl refl refl ge u[symmetric] Some refl refl refl
                i[symmetric] rhs' refl c[symmetric] lhs'] .
          then show ?thesis using r1 r3 r4 Some rhs' c lhs'
            by (auto simp: eq reported_def split: prod.splits intro: only_error_trans)
        qed
      qed
    qed
  qed
next
  case (4 D s ctx g)
  obtain n1 s1 g1 where u: "parse_unary D s ctx g = (n1, s1, g1)" by (metis prod_cases3)
  from 4(1) u have r1: "reported g n1 g1" by simp
  show ?case
  proof (cases n1)
    case None
    then show ?thesis using u r1 by (simp add: parse_internal.simps[of D s] reported_def)
  next
    case (Some l)
    show ?thesis
    proof (cases "EXPRLIB_ERROR g1 = EXPRLIB_SUCCESS")
      case False
      then show ?thesis using u r1 Some by (simp add: parse_internal.simps[of D s] reported_def)
    next
      case True
      have "case parse_binary_rhs D 0 l s1 ctx g1 of (n, r, g') \<Rightarrow>
         only_error g1 g' \<and> (n = None \<longrightarrow> EXPRLIB_ERROR g' \<noteq> EXPRLIB_SUCCESS) \<and>
         (EXPRLIB_ERROR g1 = EXPRLIB_SUCCESS \<longrightarrow> n \<noteq> None \<longrightarrow> EXPRLIB_ERROR g' = EXPRLIB_SUCCESS)"
        using 4(2)[OF u[symmetric] Some refl] True by simp
      then show ?thesis using u r1 Some True
        by (auto simp: parse_internal.simps[of D s] reported_def split: prod.splits intro: only_error_trans)
    qed
  qed
qed



text \<open>
  \<^verbatim>\<open>exprlib_parse\<close> changes \<^verbatim>\<open>EXPRLIB_ERROR\<close> only, and it returns \<^verbatim>\<open>NULL\<close> exactly when it
  leaves an error code there.
\<close>

lemma exprlib_parse_reported:
  assumes "exprlib_parse D e ctx g = (n, g')"
  shows "only_error g g' \<and> (n = None \<longleftrightarrow> EXPRLIB_ERROR g' \<noteq> EXPRLIB_SUCCESS)"
proof -
  from assms obtain r where
    "parse_internal D e ctx (g\<lparr>EXPRLIB_ERROR := EXPRLIB_SUCCESS\<rparr>) = (n, r, g')"
    by (auto simp: exprlib_parse_def split: prod.splits)
  with parser_reported(4)[where D=D and s=e and ctx=ctx and g="g\<lparr>EXPRLIB_ERROR := EXPRLIB_SUCCESS\<rparr>"]
  show ?thesis by (auto simp: reported_def only_error_def)
qed

section \<open>Failures of the parser\<close>

text \<open>
  A call that returns \<^verbatim>\<open>NULL\<close> makes its caller return \<^verbatim>\<open>NULL\<close> with the same globals, so a
  failure anywhere is the failure of \<^verbatim>\<open>exprlib_parse\<close>.
\<close>

lemma failure_handed_up:
  assumes "calls D ctx x y" and "fst (returns D ctx y)"
  shows "returns D ctx x = returns D ctx y"
  using assms
proof (cases rule: calls.cases)
  case (minus s g)
  then show ?thesis using assms(2)
    by (auto simp: parse_unary.simps[of D s] Let_def split: prod.splits option.splits)
next
  case (parenthesis s g)
  then show ?thesis using assms(2)
    by (auto simp: parse_unary.simps[of D s] Let_def split: prod.splits option.splits)
next
  case (arguments s v s1 nm s2 g)
  then show ?thesis using assms(2)
    by (auto simp: parse_unary.simps[of D s] Let_def split: prod.splits option.splits)
next
  case (argument args s g)
  then show ?thesis using assms(2)
    by (auto simp: parse_args.simps[of D args s] Let_def split: prod.splits option.splits)
next
  case (next_argument s g arg s1 g1 args)
  then show ?thesis using assms(2)
    by (auto simp: parse_args.simps[of D args s] Let_def split: prod.splits option.splits)
next
  case (operand s expr_prec lhs g)
  then show ?thesis using assms(2)
    by (auto simp: parse_binary_rhs.simps[of D expr_prec lhs s] Let_def split: prod.splits option.splits)
next
  case (tighter s expr_prec g rhs s1 g1 lhs)
  then show ?thesis using assms(2)
    by (auto simp: parse_binary_rhs.simps[of D expr_prec lhs s] Let_def split: prod.splits option.splits)
next
  case (again s expr_prec g rhs s1 g1 rhs' s3 g3 lhs lhs' g4)
  then show ?thesis using assms(2)
    by (simp add: parse_binary_rhs.simps[of D expr_prec lhs s] Let_def split del: if_split cong: if_cong)
next
  case (first_operand s g)
  then show ?thesis using assms(2)
    by (auto simp: parse_internal.simps[of D s] Let_def split: prod.splits option.splits)
next
  case (operators s g lhs s1 g1)
  then show ?thesis using assms(2)
    by (auto simp: parse_internal.simps[of D s] Let_def split: prod.splits option.splits)
qed

lemma calls_only_error:
  assumes "calls D ctx x y"
  shows "only_error (globals_of x) (globals_of y)"
  using assms
proof (cases rule: calls.cases)
  case (next_argument s g arg s1 g1 args)
  then show ?thesis using parser_reported(4)[where D=D and s=s and ctx=ctx and g=g] by (simp add: reported_def)
next
  case (tighter s expr_prec g rhs s1 g1 lhs)
  then show ?thesis using parser_reported(1)[where D=D and s="tl (skip_spaces s)" and ctx=ctx and g=g] by (simp add: reported_def)
next
  case (again s expr_prec g rhs s1 g1 rhs' s3 g3 lhs lhs' g4)
  have a: "only_error g g1"
    using again parser_reported(1)[where D=D and s="tl (skip_spaces s)" and ctx=ctx and g=g] by (simp add: reported_def)
  have b: "only_error g1 g3"
    using again(5)
      parser_reported(3)[where D=D and expr_prec="get_precedence (peek (skip_spaces s)) + 1" and lhs=rhs and s="skip_spaces s1" and ctx=ctx and g=g1]
    by (auto split: if_splits)
  have c: "only_error g3 g4" using combine_reported[OF again(6)] by (simp add: reported_def)
  show ?thesis using again(1,2) a b c by (auto intro: only_error_trans)
next
  case (operators s g lhs s1 g1)
  then show ?thesis using parser_reported(1)[where D=D and s=s and ctx=ctx and g=g] by (simp add: reported_def)
qed simp_all


lemma failure_reaches_top:
  "(calls D ctx)\<^sup>*\<^sup>* x y \<Longrightarrow> fst (returns D ctx y) \<Longrightarrow> returns D ctx x = returns D ctx y"
proof (induction rule: converse_rtranclp_induct)
  case base
  show ?case by simp
next
  case (step x z)
  from step.IH[OF step.prems] step.prems have "fst (returns D ctx z)" by simp
  from failure_handed_up[OF step.hyps(1) this] step.IH[OF step.prems] show ?case by simp
qed

lemma reached_only_error:
  "(calls D ctx)\<^sup>*\<^sup>* x y \<Longrightarrow> only_error (globals_of x) (globals_of y)"
  by (induction rule: rtranclp_induct) (auto intro: only_error_trans dest: calls_only_error)

lemma is_defined_variable_only_error:
  "only_error g g1 \<Longrightarrow> is_defined_variable z ctx g1 = is_defined_variable z ctx g"
  by (simp add: is_defined_variable_def only_error_def)


text \<open>An operand inside a parenthesis, after two operators, is reached.\<close>

lemma nested_operand_reached:
  "(calls exact [])\<^sup>*\<^sup>* (Internal ''2 * (3 - a)'' (exprlib_init exact start))
      (Unary '' a)'' (exprlib_init exact start))"
proof -
  let ?g = "exprlib_init exact start"
  have e: "?g\<lparr>EXPRLIB_ERROR := EXPRLIB_SUCCESS\<rparr> = ?g" by (simp add: init_eq)
  have 1: "calls exact [] (Internal ''2 * (3 - a)'' ?g) (Binary 0 (Number 2) '' * (3 - a)'' ?g)"
    by (rule calls.operators)
       (simp_all add: init_eq parse_unary.simps[of _ "''2 * (3 - a)''"] scan_defs exact_def)
  have 2: "calls exact [] (Binary 0 (Number 2) '' * (3 - a)'' ?g) (Unary (tl (skip_spaces '' * (3 - a)'')) ?g)"
    by (rule calls.operand) (simp add: peek_def get_precedence_def)
  have 3: "calls exact [] (Unary '' (3 - a)'' ?g) (Internal (tl (skip_spaces '' (3 - a)'')) ?g)"
    by (rule calls.parenthesis) (simp add: peek_def)
  have 4: "calls exact [] (Internal ''3 - a)'' ?g) (Binary 0 (Number 3) '' - a)'' ?g)"
    by (rule calls.operators)
       (simp_all add: init_eq parse_unary.simps[of _ "''3 - a)''"] scan_defs exact_def)
  have 5: "calls exact [] (Binary 0 (Number 3) '' - a)'' ?g) (Unary (tl (skip_spaces '' - a)'')) ?g)"
    by (rule calls.operand) (simp add: peek_def get_precedence_def)
  have "(calls exact [])\<^sup>*\<^sup>* (Internal ''2 * (3 - a)'' ?g) (Unary (tl (skip_spaces '' - a)'')) ?g)"
    using 1 2 3 4 5 by (simp add: rtranclp.rtrancl_into_rtrancl)
  then show ?thesis by simp
qed

text \<open>
  Claim C7, as stated, fails: an identifier that names nothing makes the parse fail only if
  the parser comes to it. In \<^verbatim>\<open>1 a\<close> the parse stops before \<^verbatim>\<open>a\<close> and returns the number 1;
  in \<^verbatim>\<open>1 / 0 + a\<close> the division by zero is met first.
\<close>

theorem undefined_identifier_not_reached:
  "\<not> is_defined_variable ''a'' [] (exprlib_init exact start) \<and>
   exprlib_parse exact ''1 a'' [] (exprlib_init exact start) =
     (Some (Number 1), exprlib_init exact start) \<and>
   exprlib_parse exact ''1 / 0 + a'' [] (exprlib_init exact start) =
     (None, (exprlib_init exact start)\<lparr>EXPRLIB_ERROR := EXPRLIB_ERROR_DIVISION_BY_ZERO\<rparr>)"
  by (simp add: init_eq exprlib_parse_def parser_simps scan_defs exact_def builtin_constants_def)


text \<open>
  Claim C7, amended. If, while \<^verbatim>\<open>exprlib_parse\<close> parses a text, \<^verbatim>\<open>parse_unary\<close> is called at
  a text that begins, after blanks, with an identifier that no parenthesis follows and that
  names neither a registered constant nor a variable of the context, then \<^verbatim>\<open>exprlib_parse\<close>
  returns \<^verbatim>\<open>NULL\<close> with \<^verbatim>\<open>EXPRLIB_ERROR_UNDEFINED_VARIABLE\<close>.
\<close>

theorem undefined_identifier_reached:
  assumes "(calls D ctx)\<^sup>*\<^sup>* (Internal e (g\<lparr>EXPRLIB_ERROR := EXPRLIB_SUCCESS\<rparr>)) (Unary (sp @ z @ r) g1)"
    and "all_spaces sp" and "is_identifier z"
    and "\<not> is_ident_char (peek r)" and "peek (skip_spaces r) \<noteq> CHR ''(''"
    and "\<not> is_defined_variable z ctx g"
  shows "exprlib_parse D e ctx g = (None, g\<lparr>EXPRLIB_ERROR := EXPRLIB_ERROR_UNDEFINED_VARIABLE\<rparr>)"
proof -
  have oe: "only_error g g1" using reached_only_error[OF assms(1)] by (simp add: only_error_def)
  then have g1: "g1 = g\<lparr>EXPRLIB_ERROR := EXPRLIB_ERROR g1\<rparr>" by (rule only_error_eq)
  have nd: "\<not> is_defined_variable z ctx g1"
    using assms(6) is_defined_variable_only_error[OF oe] by simp
  have u: "parse_unary D (sp @ z @ r) ctx g1 =
             (None, r, g1\<lparr>EXPRLIB_ERROR := EXPRLIB_ERROR_UNDEFINED_VARIABLE\<rparr>)"
    using parse_unary_identifier[OF assms(3,2,4,5), of D ctx g1] nd by simp
  have "g1\<lparr>EXPRLIB_ERROR := EXPRLIB_ERROR_UNDEFINED_VARIABLE\<rparr> =
        g\<lparr>EXPRLIB_ERROR := EXPRLIB_ERROR_UNDEFINED_VARIABLE\<rparr>"
    by (subst g1) simp
  with u have r: "returns D ctx (Unary (sp @ z @ r) g1) =
                    (True, g\<lparr>EXPRLIB_ERROR := EXPRLIB_ERROR_UNDEFINED_VARIABLE\<rparr>)"
    by simp
  from failure_reaches_top[OF assms(1)] r
  have "returns D ctx (Internal e (g\<lparr>EXPRLIB_ERROR := EXPRLIB_SUCCESS\<rparr>)) =
          (True, g\<lparr>EXPRLIB_ERROR := EXPRLIB_ERROR_UNDEFINED_VARIABLE\<rparr>)"
    by simp
  then show ?thesis by (auto simp: exprlib_parse_def split: prod.splits)
qed

theorem undefined_identifier_reached_witness:
  "(calls exact [])\<^sup>*\<^sup>* (Internal ''a + 2'' (exprlib_init exact start)) (Unary ''a + 2'' (exprlib_init exact start)) \<and>
   \<not> is_defined_variable ''a'' [] (exprlib_init exact start) \<and>
   exprlib_parse exact ''a + 2'' [] (exprlib_init exact start) =
     (None, (exprlib_init exact start)\<lparr>EXPRLIB_ERROR := EXPRLIB_ERROR_UNDEFINED_VARIABLE\<rparr>) \<and>
   exprlib_parse exact ''2 * (3 - a)'' [] (exprlib_init exact start) =
     (None, (exprlib_init exact start)\<lparr>EXPRLIB_ERROR := EXPRLIB_ERROR_UNDEFINED_VARIABLE\<rparr>)"
proof -
  let ?g = "exprlib_init exact start"
  have e: "?g\<lparr>EXPRLIB_ERROR := EXPRLIB_SUCCESS\<rparr> = ?g" by (simp add: init_eq)
  have c: "(calls exact [])\<^sup>*\<^sup>* (Internal ''a + 2'' (?g\<lparr>EXPRLIB_ERROR := EXPRLIB_SUCCESS\<rparr>))
             (Unary ([] @ ''a'' @ '' + 2'') ?g)"
    unfolding e by (rule r_into_rtranclp) (simp add: calls.first_operand)
  have c2: "(calls exact [])\<^sup>*\<^sup>* (Internal ''2 * (3 - a)'' (?g\<lparr>EXPRLIB_ERROR := EXPRLIB_SUCCESS\<rparr>))
             (Unary ('' '' @ ''a'' @ '')'') ?g)"
    unfolding e using nested_operand_reached by simp
  have sp: "all_spaces []" "all_spaces '' ''" by (simp_all add: all_spaces_def)
  have id: "is_identifier ''a''" by (simp add: is_identifier_def is_alpha_def is_ident_char_def)
  have r1: "\<not> is_ident_char (peek '' + 2'')" "\<not> is_ident_char (peek '')'')"
    by (simp_all add: peek_def is_ident_char_def)
  have r2: "peek (skip_spaces '' + 2'') \<noteq> CHR ''(''" "peek (skip_spaces '')'') \<noteq> CHR ''(''"
    by (simp_all add: peek_def)
  have nd: "\<not> is_defined_variable ''a'' [] ?g"
    by (simp add: is_defined_variable_def init_eq builtin_constants_def)
  from undefined_identifier_reached[OF c sp(1) id r1(1) r2(1) nd]
    undefined_identifier_reached[OF c2 sp(2) id r1(2) r2(2) nd] c nd
  show ?thesis by (simp add: e)
qed

section \<open>Text after the expression\<close>

lemma skip_spaces_append_nil: "skip_spaces s = [] \<Longrightarrow> skip_spaces (s @ t) = skip_spaces t"
  by (induction s) (auto split: if_splits)

lemma skip_spaces_skip_append: "skip_spaces (skip_spaces a @ b) = skip_spaces (a @ b)"
proof (cases "skip_spaces a = []")
  case True
  then show ?thesis by (simp add: skip_spaces_append_nil)
next
  case False
  then have "skip_spaces (skip_spaces a) \<noteq> []" by (simp add: skip_spaces_idem)
  from skip_spaces_append[OF this, of b] skip_spaces_append[OF False, of b]
  show ?thesis by (simp add: skip_spaces_idem)
qed

lemma parse_binary_rhs_skip:
  "parse_binary_rhs D p l (skip_spaces s) ctx g = parse_binary_rhs D p l s ctx g"
  by (simp add: parse_binary_rhs.simps[of D p l "skip_spaces s"] parse_binary_rhs.simps[of D p l s]
        skip_spaces_idem)

lemma is_digit_ident: "is_digit c \<Longrightarrow> is_ident_char c"
  by (auto simp: is_digit_def is_ident_char_def)

lemma parse_number_append_any:
  assumes "parse_number D s = (v, f, q)" and "skip_spaces s \<noteq> []"
    and "q = [] \<longrightarrow> \<not> is_digit (peek t) \<and> peek t \<noteq> CHR ''.''"
  shows "parse_number D (s @ t) = (v, f, q @ t)"
proof -
  obtain v1 f1 s1 where i: "int_digits D (d_of_int D 0) False (skip_spaces s) = (v1, f1, s1)"
    by (metis prod_cases3)
  note app = skip_spaces_append[OF assms(2), of t]
  show ?thesis
  proof (cases "peek s1 = CHR ''.''")
    case True
    then have s1: "s1 \<noteq> []" by (auto simp: peek_def)
    obtain v2 s2 where fr: "frac_digits D v1 (d_tenth D) (tl s1) = (v2, s2)" by (metis prod.exhaust)
    from assms(1) i True fr have e: "v2 = v" "s2 = q" "f1 = f" by (auto simp: parse_number_def)
    have i': "int_digits D (d_of_int D 0) False (skip_spaces s @ t) = (v1, f1, s1 @ t)"
      using int_digits_append[OF i, of t] s1 by simp
    have fr': "frac_digits D v1 (d_tenth D) (tl s1 @ t) = (v2, s2 @ t)"
      using frac_digits_append[OF fr, of t] assms(3) e by simp
    show ?thesis using i' fr' e s1 True
      by (simp add: parse_number_def app peek_append)
  next
    case False
    from assms(1) i False have e: "v1 = v" "s1 = q" "f1 = f" by (auto simp: parse_number_def)
    have i': "int_digits D (d_of_int D 0) False (skip_spaces s @ t) = (v1, f1, s1 @ t)"
      using int_digits_append[OF i, of t] e assms(3) by simp
    have "peek (s1 @ t) \<noteq> CHR ''.''"
      using False assms(3) e by (cases s1) (auto simp: peek_def)
    then show ?thesis using i' e by (simp add: parse_number_def app)
  qed
qed

lemma parse_unary_blank:
  "skip_spaces s = [] \<Longrightarrow> parse_unary D s ctx g = (None, [], g\<lparr>EXPRLIB_ERROR := EXPRLIB_ERROR_SYNTAX\<rparr>)"
  by (simp add: parse_unary.simps[of D s] peek_def parse_number_def is_alpha_def)

lemma parse_internal_blank:
  "skip_spaces s = [] \<Longrightarrow> parse_internal D s ctx g = (None, [], g\<lparr>EXPRLIB_ERROR := EXPRLIB_ERROR_SYNTAX\<rparr>)"
  by (simp add: parse_internal.simps[of D s] parse_unary_blank)

lemma parse_args_blank:
  "skip_spaces s = [] \<Longrightarrow> parse_args D args s ctx g = (None, [], g\<lparr>EXPRLIB_ERROR := EXPRLIB_ERROR_SYNTAX\<rparr>)"
  by (simp add: parse_args.simps[of D args s] parse_internal_blank)

lemma get_precedence_neg: "get_precedence c < 0 \<longleftrightarrow> get_precedence c = - 1"
  by (auto simp: get_precedence_def)

lemma operator_not_NUL: "0 \<le> get_precedence (peek s) \<Longrightarrow> s \<noteq> []"
  by (auto simp: peek_def get_precedence_def)

lemma peek_nonspace_skip: "s \<noteq> [] \<Longrightarrow> peek s \<noteq> CHR '' '' \<Longrightarrow> skip_spaces (s @ t) = s @ t"
  by (cases s) (auto simp: peek_def)


lemma rest_ignored:
  assumes B: "ends_expression t"
  shows
  "\<forall>n r g'. parse_unary D s ctx g = (Some n, r, g') \<longrightarrow>
      parse_unary D (s @ t) ctx g = (Some n, r @ t, g')"
  "\<forall>n r g'. parse_args D args s ctx g = (Some n, r, g') \<longrightarrow>
      parse_args D args (s @ t) ctx g = (Some n, r @ t, g')"
  "\<forall>n r g'. parse_binary_rhs D expr_prec lhs s ctx g = (Some n, r, g') \<longrightarrow> 0 \<le> expr_prec \<longrightarrow>
      parse_binary_rhs D expr_prec lhs (s @ t) ctx g = (Some n, skip_spaces (r @ t), g')"
  "\<forall>n r g'. parse_internal D s ctx g = (Some n, r, g') \<longrightarrow>
      parse_internal D (s @ t) ctx g = (Some n, skip_spaces (r @ t), g')"
proof (induct D s ctx g and D args s ctx g and D expr_prec lhs s ctx g and D s ctx g
    rule: parse_unary_parse_args_parse_binary_rhs_parse_internal.induct)
  case (1 D s ctx g)
  let ?s0 = "skip_spaces s"
  show ?case
  proof (intro allI impI)
    fix n r g'
    assume ok: "parse_unary D s ctx g = (Some n, r, g')"
    have ne: "?s0 \<noteq> []" using ok parse_unary_blank[of s D ctx g] by auto
    note app = skip_spaces_append[OF ne, of t]
    have pk: "peek (?s0 @ t) = peek ?s0" using ne by (rule peek_append)
    have tl0: "tl (?s0 @ t) = tl ?s0 @ t" using ne by simp
    show "parse_unary D (s @ t) ctx g = (Some n, r @ t, g')"
    proof (cases "peek ?s0 = CHR ''-''")
      case True
      obtain n1 s1 g1 where u: "parse_unary D (tl ?s0) ctx g = (n1, s1, g1)" by (metis prod_cases3)
      from ok True u obtain operand where n1: "n1 = Some operand"
        by (cases n1) (auto simp: parse_unary.simps[of D s] Let_def)
      have "parse_unary D (tl ?s0 @ t) ctx g = (Some operand, s1 @ t, g1)"
        using 1(1)[OF refl True] u n1 by simp
      then show ?thesis using ok True u n1
        by (simp add: parse_unary.simps[of D s] parse_unary.simps[of D "s @ t"] Let_def app pk tl0
              create_number_node_def create_operator_node_def split: if_splits)
    next
      case minus: False
      show ?thesis
      proof (cases "peek ?s0 = CHR ''(''")
        case True
        obtain n1 s1 g1 where u: "parse_internal D (tl ?s0) ctx g = (n1, s1, g1)" by (metis prod_cases3)
        from ok True minus u obtain node where n1: "n1 = Some node"
          by (cases n1) (auto simp: parse_unary.simps[of D s] Let_def)
        from ok True minus u n1 have cl: "peek s1 = CHR '')''"
          by (auto simp: parse_unary.simps[of D s] Let_def split: if_splits)
        then have s1: "s1 \<noteq> []" by (auto simp: peek_def)
        have sk: "skip_spaces (s1 @ t) = s1 @ t" using s1 cl by (simp add: peek_nonspace_skip)
        have "parse_internal D (tl ?s0 @ t) ctx g = (Some node, s1 @ t, g1)"
          using 1(2)[OF refl minus True] u n1 sk by simp
        then show ?thesis using ok True minus u n1 s1 cl
          by (simp add: parse_unary.simps[of D s] parse_unary.simps[of D "s @ t"] Let_def app pk tl0
                peek_append split: if_splits)
      next
        case paren: False
        obtain v found s1 where pn: "parse_number D ?s0 = (v, found, s1)" by (metis prod_cases3)
        have al1: "\<not> found \<Longrightarrow> is_alpha (peek s1)"
          using ok minus paren pn by (auto simp: parse_unary.simps[of D s] Let_def split: if_splits)
        have s1ne: "\<not> found \<Longrightarrow> s1 \<noteq> []"
          using al1 by (auto simp: peek_def not_alpha_NUL)
        have cond: "s1 = [] \<longrightarrow> \<not> is_digit (peek t) \<and> peek t \<noteq> CHR ''.''"
          using B by (auto simp: ends_expression_def dest: is_digit_ident)
        have pn': "parse_number D (?s0 @ t) = (v, found, s1 @ t)"
          using parse_number_append_any[OF pn _ cond] ne by (simp add: skip_spaces_idem)
        show ?thesis
        proof (cases found)
          case True
          then show ?thesis using ok pn pn' minus paren
            by (simp add: parse_unary.simps[of D s] parse_unary.simps[of D "s @ t"] Let_def app pk
                  create_number_node_def)
        next
          case nf: False
          note al = al1[OF nf]
          have pk1: "peek (s1 @ t) = peek s1" using s1ne[OF nf] by (rule peek_append)
          obtain nm s2 where ic: "ident_chars s1 = (nm, s2)" by (metis prod.exhaust)
          have ic': "ident_chars (s1 @ t) = (nm, s2 @ t)"
            using ident_chars_append[OF ic, of t] B by (simp add: ends_expression_def)
          let ?look = "skip_spaces s2"
          show ?thesis
          proof (cases "peek ?look = CHR ''(''")
            case False
            have "peek (skip_spaces (s2 @ t)) \<noteq> CHR ''(''"
            proof (cases "?look = []")
              case True
              then show ?thesis using B by (simp add: skip_spaces_append_nil ends_expression_def)
            next
              case ne2: False
              then show ?thesis using False by (simp add: skip_spaces_append peek_append)
            qed
            then show ?thesis using ok pn pn' minus paren nf al ic ic' False pk1
              by (simp add: parse_unary.simps[of D s] parse_unary.simps[of D "s @ t"] Let_def app pk
                    create_variable_node_def split: if_splits)
          next
            case call: True
            then have lne: "?look \<noteq> []" by (auto simp: peek_def)
            have look': "skip_spaces (s2 @ t) = ?look @ t" using lne by (rule skip_spaces_append)
            have pkl: "peek (?look @ t) = peek ?look" using lne by (rule peek_append)
            have tll: "tl (?look @ t) = tl ?look @ t" using lne by simp
            let ?s3 = "skip_spaces (tl ?look)"
            show ?thesis
            proof (cases "peek ?s3 = CHR '')''")
              case True
              then have s3: "?s3 \<noteq> []" by (auto simp: peek_def)
              have s3': "skip_spaces (tl ?look @ t) = ?s3 @ t" using s3 by (rule skip_spaces_append)
              show ?thesis using ok pn pn' minus paren nf al ic ic' call True pk1 s3 s3'
                by (simp add: parse_unary.simps[of D s] parse_unary.simps[of D "s @ t"] Let_def app pk
                      look' pkl tll peek_append create_function_node_def)
            next
              case False
              obtain n4 s4 g4 where a: "parse_args D [] ?s3 ctx g = (n4, s4, g4)" by (metis prod_cases3)
              from ok pn minus paren nf al ic call False a obtain args where n4: "n4 = Some args"
                by (cases n4) (auto simp: parse_unary.simps[of D s] Let_def)
              have s3: "?s3 \<noteq> []" using a n4 parse_args_blank[of ?s3 D "[]" ctx g]
                by (auto simp: skip_spaces_idem)
              have s3': "skip_spaces (tl ?look @ t) = ?s3 @ t" using s3 by (rule skip_spaces_append)
              from ok pn minus paren nf al ic call False a n4 have cl: "peek s4 = CHR '')''"
                by (auto simp: parse_unary.simps[of D s] Let_def split: if_splits)
              then have s4: "s4 \<noteq> []" by (auto simp: peek_def)
              have "parse_args D [] (?s3 @ t) ctx g = (Some args, s4 @ t, g4)"
                using 1(3)[OF refl minus paren pn[symmetric] refl _ al ic[symmetric] refl call refl False]
                  nf a n4 by simp
              then show ?thesis using ok pn pn' minus paren nf al ic ic' call False pk1 s3 s3' a n4 cl s4
                by (simp add: parse_unary.simps[of D s] parse_unary.simps[of D "s @ t"] Let_def app pk
                      look' pkl tll peek_append create_function_node_def)
            qed
          qed
        qed
      qed
    qed
  qed
next
  case (2 D args s ctx g)
  show ?case
  proof (intro allI impI)
    fix n r g'
    assume ok: "parse_args D args s ctx g = (Some n, r, g')"
    obtain n1 s1 g1 where u: "parse_internal D s ctx g = (n1, s1, g1)" by (metis prod_cases3)
    from ok u obtain arg where n1: "n1 = Some arg"
      by (cases n1) (auto simp: parse_args.simps[of D args s])
    from ok u n1 have e1: "EXPRLIB_ERROR g1 = EXPRLIB_SUCCESS"
      by (auto simp: parse_args.simps[of D args s] split: if_splits)
    let ?s2 = "skip_spaces s1"
    from ok u n1 e1 have sep: "peek ?s2 = CHR '','' \<or> peek ?s2 = CHR '')''"
      by (auto simp: parse_args.simps[of D args s] Let_def split: if_splits)
    then have s2: "?s2 \<noteq> []" by (auto simp: peek_def)
    have sk: "skip_spaces (s1 @ t) = ?s2 @ t" using s2 by (rule skip_spaces_append)
    have sk2: "skip_spaces (?s2 @ t) = ?s2 @ t"
      using s2 peek_skip_spaces[of s1] by (rule peek_nonspace_skip)
    have pk: "peek (?s2 @ t) = peek ?s2" using s2 by (rule peek_append)
    have u': "parse_internal D (s @ t) ctx g = (Some arg, ?s2 @ t, g1)"
      using 2(1) u n1 sk by simp
    show "parse_args D args (s @ t) ctx g = (Some n, r @ t, g')"
    proof (cases "peek ?s2 = CHR '',''")
      case True
      let ?s3 = "skip_spaces (tl ?s2)"
      have rec: "parse_args D (args @ [arg]) ?s3 ctx g1 = (Some n, r, g')"
        using ok u n1 e1 True by (simp add: parse_args.simps[of D args s] Let_def)
      have s3: "?s3 \<noteq> []" using rec parse_args_blank[of ?s3 D "args @ [arg]" ctx g1]
        by (auto simp: skip_spaces_idem)
      have s3': "skip_spaces (tl ?s2 @ t) = ?s3 @ t" using s3 by (rule skip_spaces_append)
      have "parse_args D (args @ [arg]) (?s3 @ t) ctx g1 = (Some n, r @ t, g')"
        using 2(2)[OF u[symmetric] n1 refl _ refl True] e1 rec by simp
      then show ?thesis using u' e1 True s2 s3'
        by (simp add: parse_args.simps[of D args "s @ t"] Let_def sk2 pk)
    next
      case False
      with sep have cl: "peek ?s2 = CHR '')''" by simp
      have "n = args @ [arg] \<and> r = ?s2 \<and> g' = g1"
        using ok u n1 e1 False cl by (simp add: parse_args.simps[of D args s] Let_def)
      then show ?thesis using u' e1 False cl
        by (simp add: parse_args.simps[of D args "s @ t"] Let_def sk2 pk)
    qed
  qed
next
  case (3 D expr_prec lhs s ctx g)
  let ?s0 = "skip_spaces s"
  let ?op = "peek ?s0"
  let ?tok_prec = "get_precedence ?op"
  show ?case
  proof (intro allI impI)
    fix n r g'
    assume ok: "parse_binary_rhs D expr_prec lhs s ctx g = (Some n, r, g')" and p0: "0 \<le> expr_prec"
    show "parse_binary_rhs D expr_prec lhs (s @ t) ctx g = (Some n, skip_spaces (r @ t), g')"
    proof (cases "?tok_prec < expr_prec")
      case True
      then have res: "n = lhs \<and> r = ?s0 \<and> g' = g"
        using ok by (simp add: parse_binary_rhs.simps[of D expr_prec lhs s] Let_def)
      show ?thesis
      proof (cases "?s0 = []")
        case nil: True
        have "get_precedence (peek (skip_spaces (s @ t))) < expr_prec"
          using B p0 nil by (simp add: skip_spaces_append_nil ends_expression_def)
        then show ?thesis using res nil
          by (simp add: parse_binary_rhs.simps[of D expr_prec lhs "s @ t"] Let_def skip_spaces_append_nil)
      next
        case False
        have app: "skip_spaces (s @ t) = ?s0 @ t" using False by (rule skip_spaces_append)
        have sk: "skip_spaces (?s0 @ t) = ?s0 @ t"
          using False peek_skip_spaces[of s] by (rule peek_nonspace_skip)
        show ?thesis using res True False
          by (simp add: parse_binary_rhs.simps[of D expr_prec lhs "s @ t"] Let_def app sk peek_append)
      qed
    next
      case ge: False
      then have "0 \<le> ?tok_prec" using p0 by simp
      then have ne: "?s0 \<noteq> []" by (rule operator_not_NUL)
      have app: "skip_spaces (s @ t) = ?s0 @ t" using ne by (rule skip_spaces_append)
      have pk: "peek (?s0 @ t) = ?op" using ne by (rule peek_append)
      have tl0: "tl (?s0 @ t) = tl ?s0 @ t" using ne by simp
      obtain n1 s1 g1 where u: "parse_unary D (tl ?s0) ctx g = (n1, s1, g1)" by (metis prod_cases3)
      from ok ge u obtain rhs where n1: "n1 = Some rhs"
        by (cases n1) (auto simp: parse_binary_rhs.simps[of D expr_prec lhs s] Let_def)
      have u': "parse_unary D (tl ?s0 @ t) ctx g = (Some rhs, s1 @ t, g1)"
        using 3(1)[OF refl refl refl ge] u n1 by simp
      let ?s2 = "skip_spaces s1"
      let ?next_prec = "get_precedence (peek ?s2)"
      let ?climb = "?tok_prec < ?next_prec \<or> (?tok_prec = ?next_prec \<and> is_right_associative ?op)"
      let ?inner = "if ?climb then parse_binary_rhs D (?tok_prec + 1) rhs ?s2 ctx g1 else (Some rhs, ?s2, g1)"
      let ?s2' = "skip_spaces (s1 @ t)"
      have np: "get_precedence (peek ?s2') = ?next_prec"
      proof (cases "?s2 = []")
        case True
        then show ?thesis using B
          by (simp add: skip_spaces_append_nil ends_expression_def get_precedence_neg peek_def
                get_precedence_def[of "CHR 0x00"])
      next
        case False
        then show ?thesis by (simp add: skip_spaces_append peek_append)
      qed
      obtain n3 s3 g3 where i: "?inner = (n3, s3, g3)" by (metis prod_cases3)
      have eq: "parse_binary_rhs D expr_prec lhs s ctx g =
        (case (n3, s3, g3) of
           (None, s3, g3) \<Rightarrow> (None, s3, g3)
         | (Some rhs', s3, g3) \<Rightarrow>
             (case combine D ?op lhs rhs' g3 of
                (None, g4) \<Rightarrow> (None, s3, g4)
              | (Some lhs', g4) \<Rightarrow> parse_binary_rhs D expr_prec lhs' s3 ctx g4))"
        unfolding i[symmetric] using ge u n1
        by (simp add: parse_binary_rhs.simps[of D expr_prec lhs s] Let_def split del: if_split cong: if_cong)
      from ok obtain rhs' where n3: "n3 = Some rhs'" by (cases n3) (auto simp: eq)
      have i': "(if ?climb then parse_binary_rhs D (?tok_prec + 1) rhs ?s2' ctx g1 else (Some rhs, ?s2', g1))
                  = (Some rhs', skip_spaces (s3 @ t), g3)"
      proof (cases ?climb)
        case True
        have "parse_binary_rhs D (?tok_prec + 1) rhs ?s2 ctx g1 = (Some rhs', s3, g3)"
          using i n3 True by simp
        moreover have "0 \<le> ?tok_prec + 1" using \<open>0 \<le> ?tok_prec\<close> by simp
        ultimately have "parse_binary_rhs D (?tok_prec + 1) rhs (?s2 @ t) ctx g1 =
            (Some rhs', skip_spaces (s3 @ t), g3)"
          using 3(2)[OF refl refl refl ge u[symmetric] n1 refl refl refl True] by simp
        moreover have "parse_binary_rhs D (?tok_prec + 1) rhs ?s2' ctx g1 =
            parse_binary_rhs D (?tok_prec + 1) rhs (?s2 @ t) ctx g1"
          using parse_binary_rhs_skip[of D "?tok_prec + 1" rhs "s1 @ t" ctx g1]
            parse_binary_rhs_skip[of D "?tok_prec + 1" rhs "?s2 @ t" ctx g1]
          by (simp add: skip_spaces_skip_append)
        ultimately show ?thesis using True by simp
      next
        case False
        have "?inner = (Some rhs, ?s2, g1)" using False by (rule if_not_P)
        with i n3 have "rhs' = rhs \<and> s3 = ?s2 \<and> g3 = g1" by simp
        moreover have "(if ?climb then parse_binary_rhs D (?tok_prec + 1) rhs ?s2' ctx g1
                        else (Some rhs, ?s2', g1)) = (Some rhs, ?s2', g1)"
          using False by (rule if_not_P)
        ultimately show ?thesis by (simp add: skip_spaces_skip_append)
      qed
      have eq': "parse_binary_rhs D expr_prec lhs (s @ t) ctx g =
        (case combine D ?op lhs rhs' g3 of
           (None, g4) \<Rightarrow> (None, skip_spaces (s3 @ t), g4)
         | (Some lhs', g4) \<Rightarrow> parse_binary_rhs D expr_prec lhs' (skip_spaces (s3 @ t)) ctx g4)"
        using ge u' i'
        by (simp add: parse_binary_rhs.simps[of D expr_prec lhs "s @ t"] Let_def app pk tl0 np
              split del: if_split cong: if_cong)
      obtain n4 g4 where c: "combine D ?op lhs rhs' g3 = (n4, g4)" by (metis prod.exhaust)
      from ok n3 c obtain lhs' where n4: "n4 = Some lhs'" by (cases n4) (auto simp: eq)
      have loop: "parse_binary_rhs D expr_prec lhs' s3 ctx g4 = (Some n, r, g')"
        using ok n3 c n4 by (simp add: eq)
      have "parse_binary_rhs D expr_prec lhs' (s3 @ t) ctx g4 = (Some n, skip_spaces (r @ t), g')"
        using 3(3)[OF refl refl refl ge u[symmetric] n1 refl refl refl i[symmetric] n3 refl
            c[symmetric] n4] loop p0 by simp
      then show ?thesis using c n4 by (simp add: eq' parse_binary_rhs_skip)
    qed
  qed
next
  case (4 D s ctx g)
  show ?case
  proof (intro allI impI)
    fix n r g'
    assume ok: "parse_internal D s ctx g = (Some n, r, g')"
    obtain n1 s1 g1 where u: "parse_unary D s ctx g = (n1, s1, g1)" by (metis prod_cases3)
    from ok u obtain l where n1: "n1 = Some l"
      by (cases n1) (auto simp: parse_internal.simps[of D s])
    from ok u n1 have e1: "EXPRLIB_ERROR g1 = EXPRLIB_SUCCESS"
      by (auto simp: parse_internal.simps[of D s] split: if_splits)
    have u': "parse_unary D (s @ t) ctx g = (Some l, s1 @ t, g1)" using 4(1) u n1 by simp
    have b: "parse_binary_rhs D 0 l s1 ctx g1 = (Some n, r, g')"
      using ok u n1 e1 by (simp add: parse_internal.simps[of D s])
    have "parse_binary_rhs D 0 l (s1 @ t) ctx g1 = (Some n, skip_spaces (r @ t), g')"
      using 4(2)[OF u[symmetric] n1 refl] e1 b by simp
    then show "parse_internal D (s @ t) ctx g = (Some n, skip_spaces (r @ t), g')"
      using u' e1 by (simp add: parse_internal.simps[of D "s @ t"])
  qed
qed



text \<open>
  Claim C10, as stated, fails when the rest of the text goes on with the last token of the
  prefix or opens a parenthesis after an identifier: \<^verbatim>\<open>pi\<close> is a complete expression and
  \<^verbatim>\<open>(\<close> is no binary operator, but \<^verbatim>\<open>pi (1)\<close> is parsed as a call of \<^verbatim>\<open>pi\<close>, not as the
  constant; \<^verbatim>\<open>1\<close> is a complete expression, but \<^verbatim>\<open>12\<close> is parsed as twelve.
\<close>

theorem call_or_longer_token_instead_of_prefix:
  "exprlib_parse exact ''pi'' [] (exprlib_init exact start) =
     (Some (Variable ''pi''), exprlib_init exact start) \<and>
   exprlib_parse exact ''pi (1)'' [] (exprlib_init exact start) =
     (Some (FunctionCall ''pi'' [Number 1]), exprlib_init exact start) \<and>
   exprlib_parse exact ''1'' [] (exprlib_init exact start) =
     (Some (Number 1), exprlib_init exact start) \<and>
   exprlib_parse exact ''12'' [] (exprlib_init exact start) =
     (Some (Number 12), exprlib_init exact start)"
  by (simp add: init_eq exprlib_parse_def parser_simps scan_defs exact_def builtin_constants_def)


text \<open>
  Claim C10, amended. \<^verbatim>\<open>exprlib_parse\<close> does not require the whole text to be consumed: when
  a text \<open>p\<close> is parsed to a tree, every text made of \<open>p\<close> and a rest that ends an expression
  (it does not continue the last number or identifier of \<open>p\<close>, and its first character after
  blanks is neither a binary operator nor an opening parenthesis) is parsed to the same tree,
  with the same globals, hence with no error: the rest is ignored.
\<close>

theorem trailing_text_ignored:
  assumes "exprlib_parse D p ctx g = (Some n, g')" and "ends_expression t"
  shows "exprlib_parse D (p @ t) ctx g = (Some n, g') \<and> EXPRLIB_ERROR g' = EXPRLIB_SUCCESS"
proof -
  from assms(1) obtain r where
    "parse_internal D p ctx (g\<lparr>EXPRLIB_ERROR := EXPRLIB_SUCCESS\<rparr>) = (Some n, r, g')"
    by (auto simp: exprlib_parse_def split: prod.splits)
  with rest_ignored(4)[OF assms(2), of D p ctx "g\<lparr>EXPRLIB_ERROR := EXPRLIB_SUCCESS\<rparr>"]
  have "exprlib_parse D (p @ t) ctx g = (Some n, g')" by (simp add: exprlib_parse_def)
  moreover have "EXPRLIB_ERROR g' = EXPRLIB_SUCCESS"
    using exprlib_parse_reported[OF assms(1)] by simp
  ultimately show ?thesis by simp
qed

theorem trailing_text_ignored_witness:
  "exprlib_parse exact ''1'' [] (exprlib_init exact start) = (Some (Number 1), exprlib_init exact start) \<and>
   ends_expression '' 2'' \<and>
   exprlib_parse exact ''1 2'' [] (exprlib_init exact start) = (Some (Number 1), exprlib_init exact start)"
proof -
  have p: "exprlib_parse exact ''1'' [] (exprlib_init exact start) =
             (Some (Number 1), exprlib_init exact start)"
    by (simp add: init_eq exprlib_parse_def parser_simps scan_defs exact_def)
  have t: "ends_expression '' 2''"
    by (simp add: ends_expression_def peek_def is_ident_char_def get_precedence_def)
  from trailing_text_ignored[OF p t] p t show ?thesis by simp
qed


end
